theory Spec2Isabelle
  imports Main
begin

section \<open>Flow control operations of the recipe interpreter (FlowControl.js)\<close>

text \<open>
  A shallow embedding of \<^verbatim>\<open>src/core/operations/legacy/FlowControl.js\<close>. A primitive
  takes the execution state of a recipe and returns the updated state; the JavaScript
  mutates the state object in place, the model returns the new record. A thrown exception
  is a value of type \<open>thrown\<close>.
\<close>

subsection \<open>Data model\<close>

text \<open>
  An ingredient value is a string, a number, a boolean or an object with a nested
  \<^verbatim>\<open>string\<close> field (the pair of its \<^verbatim>\<open>option\<close> and \<^verbatim>\<open>string\<close> fields). Numbers are
  integer valued: fractions, infinities and NaN are not represented. A JavaScript value
  that may be \<^verbatim>\<open>undefined\<close> is an \<open>ing option\<close>, with \<open>None\<close> for \<^verbatim>\<open>undefined\<close>.
\<close>

datatype ing = IStr string | INum int | IBool bool | IToggle string string

type_synonym jsval = "ing option"

datatype dish_type = BYTE_ARRAY | STRING

text \<open>
  Modelled from the spec: the value container (Dish.js is not part of this file). It
  holds one current value under a type tag; \<^verbatim>\<open>get(type)\<close> returns the value and
  \<^verbatim>\<open>set(value, type)\<close> stores one. The model keeps the textual projection of the value
  (\<open>None\<close> when the value is absent, JavaScript's \<^verbatim>\<open>null\<close>); the conversion between
  representations is left to the container. The \<^verbatim>\<open>get\<close> may suspend: what it returns
  is a promise, and \<open>dish_get\<close> is the value that an \<^verbatim>\<open>await\<close> of it gives.
\<close>

record dish =
  dvalue :: "string option"
  dtype :: dish_type

text \<open>Modelled from the spec: \<^verbatim>\<open>get(type)\<close> of the value container (Dish.js).\<close>

definition dish_get :: "dish \<Rightarrow> dish_type \<Rightarrow> string option" where
  "dish_get d t = dvalue d"

text \<open>Modelled from the spec: \<^verbatim>\<open>set(value, type)\<close> of the value container (Dish.js).\<close>

definition dish_set :: "dish \<Rightarrow> string option \<Rightarrow> dish_type \<Rightarrow> dish" where
  "dish_set d v t = d\<lparr>dvalue := v, dtype := t\<rparr>"

text \<open>
  Modelled from the spec: a fresh value container (\<^verbatim>\<open>new Dish()\<close> of Dish.js), which
  holds no value yet.
\<close>

definition new_dish :: dish where
  "new_dish = \<lparr>dvalue = None, dtype = BYTE_ARRAY\<rparr>"

record operation =
  name :: string
  inputType :: dish_type
  outputType :: dish_type
  ingValues :: "ing list"
  disabled :: bool

record state =
  progress :: int
  dish :: dish
  opList :: "operation list"
  numJumps :: int
  numRegisters :: int
  forkOffset :: int

text \<open>
  A primitive that reads a property of \<^verbatim>\<open>undefined\<close> throws a TypeError, an
  invalid regular expression a SyntaxError, an ordinary operation an error of its own.
  The failure of a recipe execution carries the cursor at which it failed
  (\<^verbatim>\<open>err.progress\<close>).
\<close>

datatype cause = TypeError | SyntaxError | OperationError string

record failure =
  exitCursor :: int
  cause :: cause

datatype thrown = Raised cause | Failed failure

subsection \<open>JavaScript reads and coercions\<close>

text \<open>\<^verbatim>\<open>opList[i]\<close>: \<^verbatim>\<open>undefined\<close> outside the list.\<close>

definition op_at :: "operation list \<Rightarrow> int \<Rightarrow> operation option" where
  "op_at ops i = (if 0 \<le> i \<and> i < int (length ops) then Some (ops ! nat i) else None)"

text \<open>\<^verbatim>\<open>ings[i]\<close>: \<^verbatim>\<open>undefined\<close> outside the list.\<close>

definition ing_at :: "ing list \<Rightarrow> nat \<Rightarrow> jsval" where
  "ing_at ings i = (if i < length ings then Some (ings ! i) else None)"

text \<open>
  \<^verbatim>\<open>a === b\<close>. Two object values are equal only when they are the same object; the
  ingredient values of distinct operations are distinct objects, so the model never
  equates two objects.
\<close>

fun strict_eq :: "jsval \<Rightarrow> jsval \<Rightarrow> bool" where
  "strict_eq None None = True"
| "strict_eq (Some (IStr a)) (Some (IStr b)) = (a = b)"
| "strict_eq (Some (INum a)) (Some (INum b)) = (a = b)"
| "strict_eq (Some (IBool a)) (Some (IBool b)) = (a = b)"
| "strict_eq _ _ = False"

text \<open>Truthiness, as \<^verbatim>\<open>if (v)\<close> and \<^verbatim>\<open>!v\<close> read a value.\<close>

fun truthy :: "jsval \<Rightarrow> bool" where
  "truthy None = False"
| "truthy (Some (IStr s)) = (s \<noteq> [])"
| "truthy (Some (INum n)) = (n \<noteq> 0)"
| "truthy (Some (IBool b)) = b"
| "truthy (Some (IToggle opt s)) = True"

definition is_digit :: "char \<Rightarrow> bool" where
  "is_digit c = (c \<in> set ''0123456789'')"

definition digit_val :: "char \<Rightarrow> int" where
  "digit_val c = int (of_char c) - 48"

text \<open>The value of a string of decimal digits, as \<^verbatim>\<open>parseInt(str, 10)\<close> reads it.\<close>

definition parseInt10 :: "string \<Rightarrow> int" where
  "parseInt10 ds = foldl (\<lambda>a c. 10 * a + digit_val c) 0 ds"

text \<open>
  ToNumber, for the comparison with the jump counter. \<open>None\<close> is NaN. A string converts
  when it is empty (to 0) or a run of decimal digits; the other numeric literal forms
  (sign, white space, fraction, exponent, radix prefix) are outside the integer model and
  read as NaN here. The number ingredients of a recipe are numbers.
\<close>

fun to_number :: "jsval \<Rightarrow> int option" where
  "to_number None = None"
| "to_number (Some (INum n)) = Some n"
| "to_number (Some (IBool b)) = Some (if b then 1 else 0)"
| "to_number (Some (IStr s)) = (if list_all is_digit s then Some (parseInt10 s) else None)"
| "to_number (Some (IToggle opt s)) = None"

text \<open>\<^verbatim>\<open>n >= v\<close> for a number \<open>n\<close>: false when \<open>v\<close> converts to NaN.\<close>

definition js_ge :: "int \<Rightarrow> jsval \<Rightarrow> bool" where
  "js_ge n v = (case to_number v of None \<Rightarrow> False | Some m \<Rightarrow> m \<le> n)"

subsection \<open>Label resolution\<close>

text \<open>
  \<^verbatim>\<open>
  _getLabelIndex: function(name, state) {
      for (let o = 0; o < state.opList.length; o++) {
          const operation = state.opList[o];
          if (operation.name === "Label"){
              const ings = operation.ingValues;
              if (name === ings[0]) {
                  return o;
              }
          }
      }
      return -1;
  }
  \<close>
  The loop over the positions is a recursion over the list, with the position counted up.
\<close>

fun getLabelIndex_from :: "jsval \<Rightarrow> operation list \<Rightarrow> int \<Rightarrow> int" where
  "getLabelIndex_from nm [] i = - 1"
| "getLabelIndex_from nm (operation # rest) i =
     (if name operation = ''Label'' \<and> strict_eq nm (ing_at (ingValues operation) 0)
      then i
      else getLabelIndex_from nm rest (i + 1))"

definition getLabelIndex :: "jsval \<Rightarrow> state \<Rightarrow> int" where
  "getLabelIndex nm s = getLabelIndex_from nm (opList s) 0"

subsection \<open>Jump and Conditional Jump\<close>

text \<open>
  \<^verbatim>\<open>
  runJump: function(state) {
      const ings     = state.opList[state.progress].ingValues,
          label = ings[0],
          maxJumps = ings[1],
          jmpIndex = FlowControl._getLabelIndex(label, state);

      if (state.numJumps >= maxJumps || jmpIndex === -1) {
          return state;
      }

      state.progress = jmpIndex;
      state.numJumps++;
      return state;
  }
  \<close>
\<close>

definition runJump :: "state \<Rightarrow> thrown + state" where
  "runJump s =
     (case op_at (opList s) (progress s) of
        None \<Rightarrow> Inl (Raised TypeError)
      | Some cur \<Rightarrow>
          (let ings = ingValues cur;
               label = ing_at ings 0;
               maxJumps = ing_at ings 1;
               jmpIndex = getLabelIndex label s
           in if js_ge (numJumps s) maxJumps \<or> jmpIndex = - 1
              then Inr s
              else Inr (s\<lparr>progress := jmpIndex, numJumps := numJumps s + 1\<rparr>)))"

text \<open>ToString, for a value used as a string.\<close>

function show_nat :: "nat \<Rightarrow> string" where
  "show_nat n = (if n < 10 then [''0123456789'' ! n] else show_nat (n div 10) @ [''0123456789'' ! (n mod 10)])"
  by pat_completeness auto
termination
  by (relation "measure id") auto

definition show_int :: "int \<Rightarrow> string" where
  "show_int i = (if i < 0 then CHR ''-'' # show_nat (nat (- i)) else show_nat (nat i))"

fun to_str :: "jsval \<Rightarrow> string" where
  "to_str None = ''undefined''"
| "to_str (Some (IStr s)) = s"
| "to_str (Some (INum n)) = show_int n"
| "to_str (Some (IBool b)) = (if b then ''true'' else ''false'')"
| "to_str (Some (IToggle opt s)) = ''[object Object]''"

text \<open>
  \<^verbatim>\<open>
  runCondJump: async function(state) {
      const ings     = state.opList[state.progress].ingValues,
          dish     = state.dish,
          regexStr = ings[0],
          invert   = ings[1],
          label    = ings[2],
          maxJumps = ings[3],
          jmpIndex = FlowControl._getLabelIndex(label, state);

      if (state.numJumps >= maxJumps || jmpIndex === -1) {
          return state;
      }

      if (regexStr !== "") {
          const strMatch = await dish.get(Dish.STRING).search(regexStr) > -1;
          if (!invert && strMatch || invert && !strMatch) {
              state.progress = jmpIndex;
              state.numJumps++;
          }
      }

      return state;
  }
  \<close>
  \<^verbatim>\<open>dish.get(Dish.STRING).search(regexStr)\<close> reads \<^verbatim>\<open>search\<close> from what \<^verbatim>\<open>get\<close>
  returns and calls it, before the \<^verbatim>\<open>await\<close>: the member access binds tighter. The
  \<^verbatim>\<open>get\<close> of the container may suspend, so what it returns is a promise of the value
  (the reads in \<^verbatim>\<open>runFork\<close> and \<^verbatim>\<open>runRegister\<close> await it); a promise has no
  \<^verbatim>\<open>search\<close>, and the call of \<^verbatim>\<open>undefined\<close> throws a TypeError. So every pattern
  other than the empty string ends in the TypeError, and the test of \<^verbatim>\<open>strMatch\<close> and
  \<^verbatim>\<open>invert\<close> and the jump after it are never reached.
\<close>

definition runCondJump :: "state \<Rightarrow> thrown + state" where
  "runCondJump s =
     (case op_at (opList s) (progress s) of
        None \<Rightarrow> Inl (Raised TypeError)
      | Some cur \<Rightarrow>
          (let ings = ingValues cur;
               regexStr = ing_at ings 0;
               invert = ing_at ings 1;
               label = ing_at ings 2;
               maxJumps = ing_at ings 3;
               jmpIndex = getLabelIndex label s
           in if js_ge (numJumps s) maxJumps \<or> jmpIndex = - 1
              then Inr s
              else if \<not> strict_eq regexStr (Some (IStr []))
              then Inl (Raised TypeError)
              else Inr s))"

text \<open>
  \<^verbatim>\<open>runReturn\<close> moves the cursor to the end of the list; \<^verbatim>\<open>runComment\<close> and
  \<^verbatim>\<open>runMerge\<close> return the state as it is.
\<close>

definition runReturn :: "state \<Rightarrow> thrown + state" where
  "runReturn s = Inr (s\<lparr>progress := int (length (opList s))\<rparr>)"

definition runComment :: "state \<Rightarrow> thrown + state" where
  "runComment s = Inr s"

definition runMerge :: "state \<Rightarrow> thrown + state" where
  "runMerge s = Inr s"

subsection \<open>Fork\<close>

text \<open>
  \<^verbatim>\<open>input.split(splitDelim)\<close> on a string: the pieces between the occurrences of the
  separator, found from left to right without overlap. An empty separator splits into
  the single characters, an \<^verbatim>\<open>undefined\<close> one does not split.
\<close>

function split_on :: "string \<Rightarrow> string \<Rightarrow> string \<Rightarrow> string list" where
  "split_on sep cur [] = [cur]"
| "split_on sep cur (c # cs) =
     (if sep \<noteq> [] \<and> take (length sep) (c # cs) = sep
      then cur # split_on sep [] (drop (length sep) (c # cs))
      else split_on sep (cur @ [c]) cs)"
  by pat_completeness auto
termination
  by (relation "measure (\<lambda>(sep, cur, s). length s)") auto

definition js_split :: "string \<Rightarrow> jsval \<Rightarrow> string list" where
  "js_split str sep =
     (case sep of
        None \<Rightarrow> [str]
      | Some v \<Rightarrow> (if to_str sep = [] then map (\<lambda>c. [c]) str else split_on (to_str sep) [] str))"

text \<open>
  The string that \<^verbatim>\<open>output += value + mergeDelim\<close> appends, for the value read from a
  container: a string is concatenated with the string of the delimiter; \<^verbatim>\<open>null\<close> is
  added to a number or a boolean as the number 0 and to \<^verbatim>\<open>undefined\<close> gives NaN.
\<close>

fun js_add_str :: "string option \<Rightarrow> jsval \<Rightarrow> string" where
  "js_add_str (Some a) v = a @ to_str v"
| "js_add_str None None = ''NaN''"
| "js_add_str None (Some (INum n)) = show_int n"
| "js_add_str None (Some (IBool b)) = (if b then ''1'' else ''0'')"
| "js_add_str None (Some (IStr b)) = ''null'' @ b"
| "js_add_str None (Some (IToggle opt b)) = ''null[object Object]''"

text \<open>
  The recursive run of the recipe over one tranche, \<^verbatim>\<open>recipe.execute(dish, 0, state)\<close>, is
  the interpreter's (Recipe.js), which is not part of this file: it is the parameter
  \<open>exec\<close>. It is handed the sub-operations, the child container, the start cursor and
  the state; all three are objects it may mutate, so it returns them with its outcome:
  the exit cursor, or a failure that carries one.
\<close>

record exec_result =
  outcome :: "failure + int"
  out_dish :: dish
  out_ops :: "operation list"
  out_state :: state

type_synonym executor = "operation list \<Rightarrow> dish \<Rightarrow> int \<Rightarrow> state \<Rightarrow> exec_result"

text \<open>
  The sub-operations are the objects of the outer list at the positions after the fork:
  what is written to one is seen through the state's list as well.
\<close>

definition put_sub :: "int \<Rightarrow> operation list \<Rightarrow> state \<Rightarrow> state" where
  "put_sub p ops st =
     st\<lparr>opList := take (nat (p + 1)) (opList st) @ ops
                   @ drop (nat (p + 1) + length ops) (opList st)\<rparr>"

text \<open>
  \<^verbatim>\<open>subOpList.forEach((op, i) => { op.ingValues = JSON.parse(JSON.stringify(ingValues[i])); })\<close>:
  a copy of a value is the value.
\<close>

definition reset_ings :: "operation list \<Rightarrow> ing list list \<Rightarrow> operation list" where
  "reset_ings ops base = map (\<lambda>(op, iv). op\<lparr>ingValues := iv\<rparr>) (zip ops base)"

text \<open>
  \<^verbatim>\<open>
  for (i = 0; i < inputs.length; i++) {
      subOpList.forEach((op, i) => {
          op.ingValues = JSON.parse(JSON.stringify(ingValues[i]));
      });

      const dish = new Dish();
      dish.set(inputs[i], inputType);

      try {
          progress = await recipe.execute(dish, 0, state);
      } catch (err) {
          if (!ignoreErrors) {
              throw err;
          }
          progress = err.progress + 1;
      }
      output += await dish.get(outputType) + mergeDelim;
  }
  \<close>
  The loop over the tranches, with the sub-operations, the output, the progress and
  the state as accumulators. \<open>fop\<close> is the fork operation and \<open>p\<close> its position.
  \<open>run_tranche\<close> is the call of the interpreter for one tranche, \<open>tranche_output\<close>
  the string the tranche appends and \<open>tranche_state\<close> the state after it.
\<close>

definition run_tranche ::
  "executor \<Rightarrow> operation \<Rightarrow> int \<Rightarrow> ing list list \<Rightarrow> string \<Rightarrow> operation list \<Rightarrow> state \<Rightarrow>
   exec_result" where
  "run_tranche exec fop p base t ops st =
     (let ops0 = reset_ings ops base;
          d = dish_set new_dish (Some t) (inputType fop)
      in exec ops0 d 0 (put_sub p ops0 st))"

definition tranche_output :: "operation \<Rightarrow> exec_result \<Rightarrow> string" where
  "tranche_output fop r =
     js_add_str (dish_get (out_dish r) (outputType fop)) (ing_at (ingValues fop) 1)"

definition tranche_state :: "int \<Rightarrow> exec_result \<Rightarrow> state" where
  "tranche_state p r = put_sub p (out_ops r) (out_state r)"

fun run_tranches ::
  "executor \<Rightarrow> operation \<Rightarrow> int \<Rightarrow> ing list list \<Rightarrow> string list \<Rightarrow>
   operation list \<Rightarrow> string \<Rightarrow> int \<Rightarrow> state \<Rightarrow> thrown option \<times> string \<times> int \<times> state" where
  "run_tranches exec fop p base [] ops output prog st = (None, output, prog, st)"
| "run_tranches exec fop p base (t # ts) ops output prog st =
     (let r = run_tranche exec fop p base t ops st
      in case outcome r of
           Inr pr \<Rightarrow>
             run_tranches exec fop p base ts (out_ops r) (output @ tranche_output fop r) pr
               (tranche_state p r)
         | Inl err \<Rightarrow>
             if \<not> truthy (ing_at (ingValues fop) 2)
             then (Some (Failed err), output, prog, tranche_state p r)
             else run_tranches exec fop p base ts (out_ops r) (output @ tranche_output fop r)
                    (exitCursor err + 1) (tranche_state p r))"

text \<open>
  \<^verbatim>\<open>
  runFork: async function(state) {
      const opList     = state.opList,
          inputType    = opList[state.progress].inputType,
          outputType   = opList[state.progress].outputType,
          input        = await state.dish.get(inputType),
          ings         = opList[state.progress].ingValues,
          splitDelim   = ings[0],
          mergeDelim   = ings[1],
          ignoreErrors = ings[2],
          subOpList    = [];
      let inputs       = [],
          i;

      if (input)
          inputs = input.split(splitDelim);

      for (i = state.progress + 1; i < opList.length; i++) {
          if (opList[i].name === "Merge" && !opList[i].disabled) {
              break;
          } else {
              subOpList.push(opList[i]);
          }
      }

      const recipe = new Recipe();
      let output = "",
          progress = 0;

      state.forkOffset += state.progress + 1;

      recipe.addOperations(subOpList);

      const ingValues = subOpList.map(op => JSON.parse(JSON.stringify(op.ingValues)));

      (the loop over the tranches)

      state.dish.set(output, outputType);
      state.progress += progress;
      return state;
  }
  \<close>
  The result is the exception thrown, if any, and the state object as the call leaves
  it: what was written to the state before an exception stays written.
\<close>

definition fork_inputs :: "string option \<Rightarrow> jsval \<Rightarrow> string list" where
  "fork_inputs input splitDelim =
     (case input of
        None \<Rightarrow> []
      | Some str \<Rightarrow> (if str \<noteq> [] then js_split str splitDelim else []))"

definition fork_subOpList :: "operation list \<Rightarrow> int \<Rightarrow> operation list" where
  "fork_subOpList ops p =
     takeWhile (\<lambda>x. \<not> (name x = ''Merge'' \<and> \<not> disabled x)) (drop (nat (p + 1)) ops)"

definition runFork :: "executor \<Rightarrow> state \<Rightarrow> thrown option \<times> state" where
  "runFork exec s =
     (case op_at (opList s) (progress s) of
        None \<Rightarrow> (Some (Raised TypeError), s)
      | Some fop \<Rightarrow>
          (let input = dish_get (dish s) (inputType fop);
               inputs = fork_inputs input (ing_at (ingValues fop) 0);
               subOpList = fork_subOpList (opList s) (progress s);
               s1 = s\<lparr>forkOffset := forkOffset s + (progress s + 1)\<rparr>;
               base = map ingValues subOpList
           in case run_tranches exec fop (progress s) base inputs subOpList [] 0 s1 of
                (Some e, output, prog, st) \<Rightarrow> (Some e, st)
              | (None, output, prog, st) \<Rightarrow>
                  (None, st\<lparr>dish := dish_set (dish st) (Some output) (outputType fop),
                             progress := progress st + prog\<rparr>)))"

text \<open>
  The loop over the tranches as \<^verbatim>\<open>runFork\<close> starts it for the fork operation \<open>fop\<close>:
  no output, the progress 0 and the state with the fork offset increased.
\<close>

definition fork_loop ::
  "executor \<Rightarrow> operation \<Rightarrow> state \<Rightarrow> thrown option \<times> string \<times> int \<times> state" where
  "fork_loop exec fop s =
     run_tranches exec fop (progress s) (map ingValues (fork_subOpList (opList s) (progress s)))
       (fork_inputs (dish_get (dish s) (inputType fop)) (ing_at (ingValues fop) 0))
       (fork_subOpList (opList s) (progress s)) [] 0
       (s\<lparr>forkOffset := forkOffset s + (progress s + 1)\<rparr>)"

subsection \<open>Register substitution\<close>

text \<open>
  \<^verbatim>\<open>
  function replaceRegister(str) {
      return str.replace(/(\\*)\$R(\d{1,2})/g, (match, slashes, regNum) => {
          const index = parseInt(regNum, 10) + 1;
          if (index <= state.numRegisters || index >= state.numRegisters + registers.length)
              return match;
          if (slashes.length % 2 !== 0) return match.slice(1); // Remove escape
          return slashes + registers[index - state.numRegisters];
      });
  }
  \<close>
  \<open>registers\<close> is the array of the extractor's match: the whole match at position 0,
  then the capture groups, \<^verbatim>\<open>undefined\<close> (\<open>None\<close>) for a group that took no part.

  \<open>match_token s\<close> is the match of the expression at the start of \<open>s\<close>: the longest
  run of backslashes, \<^verbatim>\<open>$R\<close>, and one digit or two when a second one follows. It
  gives the two groups and the rest of the string.
\<close>

definition backslash :: char where
  "backslash = CHR 0x5C"

definition match_token :: "string \<Rightarrow> (string \<times> string \<times> string) option" where
  "match_token s =
     (let slashes = takeWhile (\<lambda>c. c = backslash) s
      in case dropWhile (\<lambda>c. c = backslash) s of
           a # b # d1 # r1 \<Rightarrow>
             if a = CHR ''$'' \<and> b = CHR ''R'' \<and> is_digit d1
             then (case r1 of
                     [] \<Rightarrow> Some (slashes, [d1], [])
                   | d2 # r2 \<Rightarrow>
                       if is_digit d2 then Some (slashes, [d1, d2], r2)
                       else Some (slashes, [d1], r1))
             else None
         | _ \<Rightarrow> None)"

definition reg_str :: "string option \<Rightarrow> string" where
  "reg_str v = (case v of None \<Rightarrow> ''undefined'' | Some x \<Rightarrow> x)"

text \<open>The callback of the replacement, for a match with the groups \<open>slashes\<close> and \<open>regNum\<close>.\<close>

definition replacement :: "int \<Rightarrow> string option list \<Rightarrow> string \<Rightarrow> string \<Rightarrow> string" where
  "replacement numRegs registers slashes regNum =
     (let match = slashes @ ''$R'' @ regNum;
          index = parseInt10 regNum + 1
      in if index \<le> numRegs \<or> index \<ge> numRegs + int (length registers) then match
         else if length slashes mod 2 \<noteq> 0 then drop 1 match
         else slashes @ reg_str (registers ! nat (index - numRegs)))"

text \<open>
  The global replacement: the expression is tried at each position from the left; where
  it matches, the callback's string replaces the match and the scan goes on after it,
  where it does not, the character is kept.
\<close>

function replaceRegister :: "int \<Rightarrow> string option list \<Rightarrow> string \<Rightarrow> string" where
  "replaceRegister numRegs registers [] = []"
| "replaceRegister numRegs registers (c # cs) =
     (case match_token (c # cs) of
        Some (slashes, regNum, rest) \<Rightarrow>
          replacement numRegs registers slashes regNum @ replaceRegister numRegs registers rest
      | None \<Rightarrow> c # replaceRegister numRegs registers cs)"
  by pat_completeness auto
termination
proof (relation "measure (\<lambda>(numRegs, registers, s). length s)")
  show "wf (measure (\<lambda>(numRegs, registers, s). length s))" by simp
next
  fix numRegs :: int and registers :: "string option list" and c cs x2 slashes y regNum rest
  assume "match_token (c # cs) = Some x2" "(slashes, y) = x2" "(regNum, rest) = y"
  then have m: "match_token (c # cs) = Some (slashes, regNum, rest)" by simp
  have "length (dropWhile (\<lambda>c. c = backslash) (c # cs)) \<le> length (c # cs)"
    by (rule length_dropWhile_le)
  with m have "length rest < length (c # cs)"
    by (auto simp: match_token_def Let_def split: list.splits if_splits)
  then show "((numRegs, registers, rest), (numRegs, registers, c # cs))
             \<in> measure (\<lambda>(numRegs, registers, s). length s)" by simp
next
  show "\<And>numRegs registers c cs. ((numRegs, registers, cs), (numRegs, registers, c # cs))
             \<in> measure (\<lambda>(numRegs, registers, s). length s)" by simp
qed

subsection \<open>The interpreter loop\<close>

text \<open>
  Modelled from the spec: the top-level interpreter (Recipe.js is not part of this file).
  It hands the state to the primitive of the operation at the cursor, takes the state
  the primitive returns and goes on with the next position, until the cursor reaches
  the end of the list or a failure propagates, which then carries the cursor. The
  primitive of an operation is found by its name; \<open>other\<close> stands for the operations
  that are not flow control primitives of this file.
  The loop may go round as long as jumps are taken: \<open>fuel\<close> bounds the number of
  operations run, and \<open>None\<close> is the run that has not returned within it.
\<close>

definition primitive ::
  "executor \<Rightarrow> (operation \<Rightarrow> state \<Rightarrow> thrown + state) \<Rightarrow>
   operation \<Rightarrow> state \<Rightarrow> thrown + state" where
  "primitive exec other cur s =
     (if name cur = ''Jump'' then runJump s
      else if name cur = ''Conditional Jump'' then runCondJump s
      else if name cur = ''Return'' then runReturn s
      else if name cur = ''Label'' \<or> name cur = ''Comment'' then runComment s
      else if name cur = ''Merge'' then runMerge s
      else if name cur = ''Fork''
      then (case runFork exec s of (None, s') \<Rightarrow> Inr s' | (Some e, s') \<Rightarrow> Inl e)
      else other cur s)"

definition cause_of :: "thrown \<Rightarrow> cause" where
  "cause_of e = (case e of Raised c \<Rightarrow> c | Failed f \<Rightarrow> cause f)"

text \<open>
  Modelled from the spec: the loop of the top-level interpreter (\<^verbatim>\<open>execute\<close> of
  Recipe.js), over the primitive \<open>prim\<close> of each operation. It returns the state
  with the exit cursor, or the failure with the cursor at which it was raised.
\<close>

fun execute ::
  "(operation \<Rightarrow> state \<Rightarrow> thrown + state) \<Rightarrow> nat \<Rightarrow> state \<Rightarrow> (failure + state) option" where
  "execute prim 0 s = None"
| "execute prim (Suc fuel) s =
     (case op_at (opList s) (progress s) of
        None \<Rightarrow> Some (Inr s)
      | Some cur \<Rightarrow>
          (case prim cur s of
             Inl e \<Rightarrow> Some (Inl \<lparr>exitCursor = progress s, cause = cause_of e\<rparr>)
           | Inr s' \<Rightarrow> execute prim fuel (s'\<lparr>progress := progress s' + 1\<rparr>)))"

subsection \<open>Recipes and executors for the examples\<close>

text \<open>An enabled operation that reads and writes text.\<close>

definition flow_op :: "string \<Rightarrow> ing list \<Rightarrow> operation" where
  "flow_op nm ings =
     \<lparr>name = nm, inputType = STRING, outputType = STRING, ingValues = ings, disabled = False\<rparr>"

text \<open>
  The recipe of a jump that targets itself: a label and, after it, the jump to that
  label with the budget \<open>m\<close>. \<open>loop_state\<close> is a state of its run, at the cursor \<open>c\<close>
  after \<open>j\<close> jumps.
\<close>

definition jump_loop :: "string \<Rightarrow> nat \<Rightarrow> operation list" where
  "jump_loop l m = [flow_op ''Label'' [IStr l], flow_op ''Jump'' [IStr l, INum (int m)]]"

definition loop_state :: "string \<Rightarrow> nat \<Rightarrow> dish \<Rightarrow> int \<Rightarrow> int \<Rightarrow> int \<Rightarrow> nat \<Rightarrow> state" where
  "loop_state l m d r f c j =
     \<lparr>progress = c, dish = d, opList = jump_loop l m, numJumps = int j,
      numRegisters = r, forkOffset = f\<rparr>"

text \<open>A primitive applied to the state it has returned.\<close>

definition twice :: "(state \<Rightarrow> thrown + state) \<Rightarrow> state \<Rightarrow> thrown + state" where
  "twice f s = (case f s of Inl e \<Rightarrow> Inl e | Inr s' \<Rightarrow> f s')"

text \<open>The same operation applied again: the primitive run a second time at the cursor it was run at.\<close>

definition again :: "(state \<Rightarrow> thrown + state) \<Rightarrow> state \<Rightarrow> thrown + state" where
  "again f s = (case f s of Inl e \<Rightarrow> Inl e | Inr s' \<Rightarrow> f (s'\<lparr>progress := progress s\<rparr>))"

text \<open>
  A label and, after it, the conditional jump to that label on the pattern \<open>pat\<close>, with
  the budget 5, in a run over the value \<open>content\<close>, at the cursor \<open>c\<close> after
  \<open>j\<close> jumps.
\<close>

definition cond_state :: "string \<Rightarrow> bool \<Rightarrow> int \<Rightarrow> string \<Rightarrow> int \<Rightarrow> state" where
  "cond_state pat neg c content j =
     \<lparr>progress = c, dish = \<lparr>dvalue = Some content, dtype = STRING\<rparr>,
      opList = [flow_op ''Label'' [IStr ''L''],
                flow_op ''Conditional Jump'' [IStr pat, IBool neg, IStr ''L'', INum 5]],
      numJumps = j, numRegisters = 0, forkOffset = 0\<rparr>"

text \<open>
  Three executors: the identity sub-pipeline, which leaves everything as it is and exits
  at the end of the sub-operations; one that fails at its first operation on the tranche
  \<open>bad\<close> and is the identity otherwise; and one that fails and reports, as its exit
  cursor, the fork offset of the state it was handed.
\<close>

definition exec_identity :: executor where
  "exec_identity ops d c st =
     \<lparr>outcome = Inr (int (length ops)), out_dish = d, out_ops = ops, out_state = st\<rparr>"

definition exec_failing_on :: "string \<Rightarrow> executor" where
  "exec_failing_on bad ops d c st =
     (if dvalue d = Some bad
      then \<lparr>outcome = Inl \<lparr>exitCursor = 0, cause = OperationError bad\<rparr>,
            out_dish = d, out_ops = ops, out_state = st\<rparr>
      else exec_identity ops d c st)"

definition offset_probe :: executor where
  "offset_probe ops d c st =
     \<lparr>outcome = Inl \<lparr>exitCursor = forkOffset st, cause = OperationError []\<rparr>,
      out_dish = d, out_ops = ops, out_state = st\<rparr>"

text \<open>
  A fork on \<^verbatim>\<open>,\<close> that merges with \<^verbatim>\<open>;\<close>, followed by its merge, at the start of a
  run over the value \<open>input\<close>.
\<close>

definition fork_state :: "bool \<Rightarrow> string option \<Rightarrow> state" where
  "fork_state ign input =
     \<lparr>progress = 0, dish = \<lparr>dvalue = input, dtype = STRING\<rparr>,
      opList = [flow_op ''Fork'' [IStr '','', IStr '';'', IBool ign], flow_op ''Merge'' []],
      numJumps = 0, numRegisters = 0, forkOffset = 0\<rparr>"

section \<open>Properties\<close>

subsection \<open>The unconditional jump\<close>

lemma loop_label: "getLabelIndex (Some (IStr l)) (loop_state l m d r f c j) = 0"
  by (simp add: getLabelIndex_def loop_state_def jump_loop_def flow_op_def ing_at_def)

lemma loop_op_at:
  "op_at (opList (loop_state l m d r f 0 j)) (progress (loop_state l m d r f 0 j)) = Some (flow_op ''Label'' [IStr l])"
  "op_at (opList (loop_state l m d r f 1 j)) (progress (loop_state l m d r f 1 j)) = Some (flow_op ''Jump'' [IStr l, INum (int m)])"
  "op_at (opList (loop_state l m d r f 2 j)) (progress (loop_state l m d r f 2 j)) = None"
  by (simp_all add: op_at_def loop_state_def jump_loop_def)

lemma loop_jump_taken:
  "j < m \<Longrightarrow> runJump (loop_state l m d r f 1 j) = Inr (loop_state l m d r f 0 (Suc j))"
  by (simp add: runJump_def loop_op_at loop_label flow_op_def ing_at_def js_ge_def)
     (simp add: loop_state_def)

lemma loop_jump_spent:
  "runJump (loop_state l m d r f 1 m) = Inr (loop_state l m d r f 1 m)"
  by (simp add: runJump_def loop_op_at loop_label flow_op_def ing_at_def js_ge_def)
     (simp add: loop_state_def)

lemma loop_next:
  "(loop_state l m d r f c j)\<lparr>progress := progress (loop_state l m d r f c j) + 1\<rparr>
   = loop_state l m d r f (c + 1) j"
  by (simp add: loop_state_def)

lemma prim_jump: "primitive exec other (flow_op ''Jump'' ings) s = runJump s"
  by (simp add: primitive_def flow_op_def)

lemma prim_label: "primitive exec other (flow_op ''Label'' ings) s = Inr s"
  by (simp add: primitive_def flow_op_def runComment_def)

lemma execute_step:
  "op_at (opList s) (progress s) = Some cur \<Longrightarrow> prim cur s = Inr s' \<Longrightarrow>
   execute prim (Suc n) s = execute prim n (s'\<lparr>progress := progress s' + 1\<rparr>)"
  by simp

lemma execute_end:
  "op_at (opList s) (progress s) = None \<Longrightarrow> execute prim (Suc n) s = Some (Inr s)"
  by simp

lemma jump_loop_run:
  "j \<le> m \<Longrightarrow>
   execute (primitive exec other) (Suc (Suc (m - j + fuel))) (loop_state l m d r f 1 j)
   = Some (Inr (loop_state l m d r f 2 m))"
proof (induction "m - j" arbitrary: j)
  case 0
  then have jm: "j = m" by simp
  have "execute (primitive exec other) (Suc (Suc (m - j + fuel))) (loop_state l m d r f 1 m)
      = execute (primitive exec other) (Suc (m - j + fuel)) (loop_state l m d r f 2 m)"
    using execute_step[OF loop_op_at(2), of "primitive exec other" l m d r f m "loop_state l m d r f 1 m"]
    by (simp add: prim_jump loop_jump_spent loop_next)
  also have "\<dots> = Some (Inr (loop_state l m d r f 2 m))"
    by (rule execute_end) (rule loop_op_at(3))
  finally show ?case using jm by simp
next
  case (Suc k)
  then have lt: "j < m" and k: "k = m - Suc j" and le: "Suc j \<le> m" by simp_all
  have fuel: "m - j + fuel = Suc (m - Suc j + fuel)" using lt by simp
  have "execute (primitive exec other) (Suc (Suc (m - j + fuel))) (loop_state l m d r f 1 j)
      = execute (primitive exec other) (Suc (m - j + fuel)) (loop_state l m d r f 1 (Suc j))"
    using execute_step[OF loop_op_at(2), of "primitive exec other" l m d r f j "loop_state l m d r f 0 (Suc j)"]
    by (simp add: prim_jump loop_jump_taken[OF lt] loop_next)
  then show ?case using Suc.hyps(1)[OF k le] by (simp only: fuel)
qed

lemma self_jump:
  "execute (primitive exec other) (m + 3 + fuel) (loop_state l m d r f 0 0)
   = Some (Inr (loop_state l m d r f 2 m))"
proof -
  have fuel: "m + 3 + fuel = Suc (Suc (Suc (m - 0 + fuel)))" by simp
  have "execute (primitive exec other) (Suc (Suc (Suc (m - 0 + fuel)))) (loop_state l m d r f 0 0)
     = execute (primitive exec other) (Suc (Suc (m - 0 + fuel))) (loop_state l m d r f 1 0)"
    using execute_step[OF loop_op_at(1), of "primitive exec other" l m d r f 0 "loop_state l m d r f 0 0"]
    by (simp add: prim_label loop_next)
  then show ?thesis using jump_loop_run[of 0 m exec other fuel l d r f] by (simp only: fuel)
qed

text \<open>
  C1. When the jump counter has reached \<open>maxJumps\<close> or the label is not found, the Jump
  operation returns the state as it is, and it does not throw. Otherwise it sets the
  cursor to the index of the label and adds one to the jump counter. So the recipe of a
  label followed by the jump to it, run from the start with no jump counted, returns for
  every budget \<open>m\<close>, with \<open>m\<close> jumps counted and the cursor past the jump: the jump was
  taken \<open>m\<close> times and then fell through. \<open>m + 3\<close> operations are run; more fuel gives
  the same result.
\<close>

theorem runJump_budget:
  "(op_at (opList s) (progress s) = Some cur \<and>
      (js_ge (numJumps s) (ing_at (ingValues cur) 1) \<or> getLabelIndex (ing_at (ingValues cur) 0) s = - 1)
        \<longrightarrow> runJump s = Inr s) \<and>
   (op_at (opList s) (progress s) = Some cur \<and>
      \<not> js_ge (numJumps s) (ing_at (ingValues cur) 1) \<and> getLabelIndex (ing_at (ingValues cur) 0) s \<noteq> - 1
        \<longrightarrow> runJump s = Inr (s\<lparr>progress := getLabelIndex (ing_at (ingValues cur) 0) s,
                                 numJumps := numJumps s + 1\<rparr>)) \<and>
   execute (primitive exec other) (m + 3 + fuel) (loop_state l m d r f 0 0)
     = Some (Inr (loop_state l m d r f 2 m))"
  using self_jump[of exec other m fuel l d r f]
  by (auto simp: runJump_def Let_def)

theorem runJump_budget_witness:
  "op_at (opList (loop_state ''L'' 2 new_dish 0 0 1 0)) (progress (loop_state ''L'' 2 new_dish 0 0 1 0))
     = Some (flow_op ''Jump'' [IStr ''L'', INum 2])
   \<and> runJump (loop_state ''L'' 2 new_dish 0 0 1 0) = Inr (loop_state ''L'' 2 new_dish 0 0 0 1)
   \<and> runJump (loop_state ''L'' 2 new_dish 0 0 1 2) = Inr (loop_state ''L'' 2 new_dish 0 0 1 2)
   \<and> execute (primitive exec_identity (\<lambda>cur s. Inr s)) 5 (loop_state ''L'' 2 new_dish 0 0 0 0)
       = Some (Inr (loop_state ''L'' 2 new_dish 0 0 2 2))"
proof -
  let ?jump = "flow_op ''Jump'' [IStr ''L'', INum 2]"
  have cur: "op_at (opList (loop_state ''L'' 2 new_dish 0 0 1 j)) (progress (loop_state ''L'' 2 new_dish 0 0 1 j))
     = Some ?jump" for j
    using loop_op_at(2)[of "''L''" 2 new_dish 0 0 j] by simp
  have open_budget: "\<not> js_ge (numJumps (loop_state ''L'' 2 new_dish 0 0 1 0)) (ing_at (ingValues ?jump) 1)"
    by (simp add: js_ge_def ing_at_def flow_op_def loop_state_def)
  have spent: "js_ge (numJumps (loop_state ''L'' 2 new_dish 0 0 1 2)) (ing_at (ingValues ?jump) 1)"
    by (simp add: js_ge_def ing_at_def flow_op_def loop_state_def)
  have found: "getLabelIndex (ing_at (ingValues ?jump) 0) (loop_state ''L'' 2 new_dish 0 0 1 0) = 0"
    by (simp add: ing_at_def flow_op_def loop_label)
  note thm0 = runJump_budget[where s = "loop_state ''L'' 2 new_dish 0 0 1 0" and cur = ?jump
      and exec = exec_identity and other = "\<lambda>cur s. Inr s"
      and m = 2 and fuel = 0 and l = "''L''" and d = new_dish and r = 0 and f = 0]
  note thm2 = runJump_budget[where s = "loop_state ''L'' 2 new_dish 0 0 1 2" and cur = ?jump
      and exec = exec_identity and other = "\<lambda>cur s. Inr s"
      and m = 2 and fuel = 0 and l = "''L''" and d = new_dish and r = 0 and f = 0]
  have a: "runJump (loop_state ''L'' 2 new_dish 0 0 1 0) = Inr (loop_state ''L'' 2 new_dish 0 0 0 1)"
    using thm0 cur[of 0] open_budget found by (simp add: loop_state_def)
  have b: "runJump (loop_state ''L'' 2 new_dish 0 0 1 2) = Inr (loop_state ''L'' 2 new_dish 0 0 1 2)"
    using thm2 cur[of 2] spent by simp
  have c: "execute (primitive exec_identity (\<lambda>cur s. Inr s)) 5 (loop_state ''L'' 2 new_dish 0 0 0 0)
       = Some (Inr (loop_state ''L'' 2 new_dish 0 0 2 2))"
    using thm0 by simp
  from cur[of 0] a b c show ?thesis by simp
qed

subsection \<open>Fork\<close>

lemma put_sub_frame [simp]:
  "dish (put_sub p ops st) = dish st"
  "forkOffset (put_sub p ops st) = forkOffset st"
  "progress (put_sub p ops st) = progress st"
  "numJumps (put_sub p ops st) = numJumps st"
  "numRegisters (put_sub p ops st) = numRegisters st"
  by (simp_all add: put_sub_def)

lemma run_tranche_frame:
  "(\<And>ops d c st. dish (out_state (exec ops d c st)) = dish st) \<Longrightarrow>
     dish (tranche_state p (run_tranche exec fop p base t ops st)) = dish st"
  "(\<And>ops d c st. forkOffset (out_state (exec ops d c st)) = forkOffset st) \<Longrightarrow>
     forkOffset (tranche_state p (run_tranche exec fop p base t ops st)) = forkOffset st"
  by (simp_all add: tranche_state_def run_tranche_def Let_def)

lemma run_tranches_dish:
  assumes "\<And>ops d c st. dish (out_state (exec ops d c st)) = dish st"
  shows "dish (snd (snd (snd (run_tranches exec fop p base ts ops out prog st)))) = dish st"
proof (induction ts arbitrary: ops out prog st)
  case Nil
  show ?case by simp
next
  case (Cons t ts)
  show ?case
    by (simp add: Let_def Cons.IH run_tranche_frame(1)[of exec, OF assms] split: sum.split)
qed

lemma run_tranches_forkOffset:
  assumes "\<And>ops d c st. forkOffset (out_state (exec ops d c st)) = forkOffset st"
  shows "forkOffset (snd (snd (snd (run_tranches exec fop p base ts ops out prog st)))) = forkOffset st"
proof (induction ts arbitrary: ops out prog st)
  case Nil
  show ?case by simp
next
  case (Cons t ts)
  show ?case
    by (simp add: Let_def Cons.IH run_tranche_frame(2)[of exec, OF assms] split: sum.split)
qed

lemma run_tranches_ignore:
  "truthy (ing_at (ingValues fop) 2) \<Longrightarrow>
   fst (run_tranches exec fop p base ts ops out prog st) = None"
  by (induction ts arbitrary: ops out prog st) (simp_all add: Let_def split: sum.split)

lemma tranche_output_same:
  "out_dish (run_tranche exec fop p base t ops st) = dish_set new_dish (Some t) (inputType fop) \<Longrightarrow>
   tranche_output fop (run_tranche exec fop p base t ops st) = t @ to_str (ing_at (ingValues fop) 1)"
  by (simp add: tranche_output_def dish_get_def dish_set_def)

lemma run_tranches_identity:
  assumes same: "\<And>ops d c st. out_dish (exec ops d c st) = d"
      and ok: "\<And>ops d c st. \<exists>pr. outcome (exec ops d c st) = Inr pr"
  shows "fst (run_tranches exec fop p base ts ops out prog st) = None \<and>
         fst (snd (run_tranches exec fop p base ts ops out prog st))
           = out @ concat (map (\<lambda>t. t @ to_str (ing_at (ingValues fop) 1)) ts)"
proof (induction ts arbitrary: ops out prog st)
  case Nil
  show ?case by simp
next
  case (Cons t ts)
  obtain pr where pr: "outcome (run_tranche exec fop p base t ops st) = Inr pr"
    using ok[of "reset_ings ops base" "dish_set new_dish (Some t) (inputType fop)" 0
                "put_sub p (reset_ings ops base) st"]
    by (auto simp: run_tranche_def Let_def)
  have "out_dish (run_tranche exec fop p base t ops st) = dish_set new_dish (Some t) (inputType fop)"
    by (simp add: run_tranche_def Let_def same)
  then have piece: "tranche_output fop (run_tranche exec fop p base t ops st) = t @ to_str (ing_at (ingValues fop) 1)"
    by (rule tranche_output_same)
  show ?case
    by (simp add: Let_def pr piece Cons.IH)
qed

lemma runFork_result:
  "op_at (opList s) (progress s) = Some fop \<Longrightarrow>
   runFork exec s =
     (case fork_loop exec fop s of
        (Some e, output, prog, st) \<Rightarrow> (Some e, st)
      | (None, output, prog, st) \<Rightarrow>
          (None, st\<lparr>dish := dish_set (dish st) (Some output) (outputType fop),
                     progress := progress st + prog\<rparr>))"
  by (simp add: runFork_def Let_def fork_loop_def)

lemma runFork_fst:
  "op_at (opList s) (progress s) = Some fop \<Longrightarrow>
   fst (runFork exec s) =
     fst (fork_loop exec fop s)"
  by (simp add: runFork_result split: prod.split option.split)

lemma runFork_forkOffset:
  "op_at (opList s) (progress s) = Some fop \<Longrightarrow>
   forkOffset (snd (runFork exec s)) =
     forkOffset (snd (snd (snd (fork_loop exec fop s))))"
  by (simp add: runFork_result split: prod.split option.split)

lemma runFork_thrown_dish:
  "op_at (opList s) (progress s) = Some fop \<Longrightarrow> fst (runFork exec s) = Some e \<Longrightarrow>
   dish (snd (runFork exec s)) =
     dish (snd (snd (snd (fork_loop exec fop s))))"
  by (simp add: runFork_result split: prod.splits option.splits)

lemma runFork_returned_dish:
  "op_at (opList s) (progress s) = Some fop \<Longrightarrow> fst (runFork exec s) = None \<Longrightarrow>
   dish (snd (runFork exec s)) =
     \<lparr>dvalue = Some (fst (snd (fork_loop exec fop s))),
      dtype = outputType fop\<rparr>"
  by (simp add: runFork_result dish_set_def split: prod.splits option.splits)

lemma run_tranches_abort:
  "\<not> truthy (ing_at (ingValues fop) 2) \<Longrightarrow> outcome (run_tranche exec fop p base t ops st) = Inl err \<Longrightarrow>
   run_tranches exec fop p base (t # ts) ops out prog st
     = (Some (Failed err), out, prog, tranche_state p (run_tranche exec fop p base t ops st))"
  by (simp add: Let_def)

lemma run_tranches_absorb:
  "truthy (ing_at (ingValues fop) 2) \<Longrightarrow> outcome (run_tranche exec fop p base t ops st) = Inl err \<Longrightarrow>
   run_tranches exec fop p base (t # ts) ops out prog st
     = run_tranches exec fop p base ts (out_ops (run_tranche exec fop p base t ops st))
         (out @ tranche_output fop (run_tranche exec fop p base t ops st)) (exitCursor err + 1)
         (tranche_state p (run_tranche exec fop p base t ops st))"
  by (simp add: Let_def)

lemma run_tranches_thrown:
  "fst (run_tranches exec fop p base ts ops out prog st) = Some e \<Longrightarrow>
   \<not> truthy (ing_at (ingValues fop) 2) \<and> (\<exists>err. e = Failed err)"
  by (induction ts arbitrary: ops out prog st) (auto simp: Let_def split: sum.splits if_splits)

text \<open>The definitions that evaluate a fork on a given state.\<close>

lemmas fork_eval =
  runFork_def op_at_def fork_state_def flow_op_def dish_get_def dish_set_def new_dish_def
  fork_inputs_def js_split_def fork_subOpList_def ing_at_def Let_def run_tranche_def
  reset_ings_def put_sub_def tranche_output_def tranche_state_def
  exec_identity_def exec_failing_on_def offset_probe_def

text \<open>
  C2. Where the run of a tranche fails and \<open>ignoreErrors\<close> is not set, the loop over the
  tranches stops at once with that failure, whatever tranches remain, and the output is
  not extended. The fork throws what its loop throws: an exception that leaves the fork
  is such a failure, with \<open>ignoreErrors\<close> not set, and the value container of the state
  is then as it was before the fork (for an interpreter that does not write to it itself).
  Where \<open>ignoreErrors\<close> is set, the failing tranche appends what its container holds,
  followed by the merge delimiter, the progress becomes the exit cursor of the failure
  plus one, and the loop goes on with the remaining tranches; the fork then throws
  nothing and writes the output of the loop to the container.
\<close>

theorem runFork_tranche_failure:
  assumes cur: "op_at (opList s) (progress s) = Some fop"
  shows "(\<not> truthy (ing_at (ingValues fop) 2) \<and> outcome (run_tranche exec fop p base t ops st) = Inl err
            \<longrightarrow> run_tranches exec fop p base (t # ts) ops out prog st
                  = (Some (Failed err), out, prog, tranche_state p (run_tranche exec fop p base t ops st)))
       \<and> (fst (runFork exec s) = Some e
            \<longrightarrow> \<not> truthy (ing_at (ingValues fop) 2) \<and> (\<exists>err'. e = Failed err')
                \<and> ((\<forall>ops d c st. dish (out_state (exec ops d c st)) = dish st)
                     \<longrightarrow> dish (snd (runFork exec s)) = dish s))
       \<and> (truthy (ing_at (ingValues fop) 2) \<and> outcome (run_tranche exec fop p base t ops st) = Inl err
            \<longrightarrow> run_tranches exec fop p base (t # ts) ops out prog st
                  = run_tranches exec fop p base ts (out_ops (run_tranche exec fop p base t ops st))
                      (out @ tranche_output fop (run_tranche exec fop p base t ops st))
                      (exitCursor err + 1)
                      (tranche_state p (run_tranche exec fop p base t ops st)))
       \<and> (truthy (ing_at (ingValues fop) 2)
            \<longrightarrow> fst (runFork exec s) = None
                \<and> dish (snd (runFork exec s))
                    = \<lparr>dvalue = Some (fst (snd (fork_loop exec fop s))), dtype = outputType fop\<rparr>)
       \<and> fst (runFork exec s) = fst (fork_loop exec fop s)"
proof (intro conjI impI)
  assume "\<not> truthy (ing_at (ingValues fop) 2) \<and> outcome (run_tranche exec fop p base t ops st) = Inl err"
  then show "run_tranches exec fop p base (t # ts) ops out prog st
                  = (Some (Failed err), out, prog, tranche_state p (run_tranche exec fop p base t ops st))"
    by (intro run_tranches_abort) simp_all
next
  assume e: "fst (runFork exec s) = Some e"
  then show "\<not> truthy (ing_at (ingValues fop) 2)" and "\<exists>err'. e = Failed err'"
    using run_tranches_thrown unfolding runFork_fst[OF cur] fork_loop_def by blast+
  assume frame: "\<forall>ops d c st. dish (out_state (exec ops d c st)) = dish st"
  show "dish (snd (runFork exec s)) = dish s"
    unfolding runFork_thrown_dish[OF cur e] fork_loop_def using frame by (simp add: run_tranches_dish)
next
  assume "truthy (ing_at (ingValues fop) 2) \<and> outcome (run_tranche exec fop p base t ops st) = Inl err"
  then show "run_tranches exec fop p base (t # ts) ops out prog st
                  = run_tranches exec fop p base ts (out_ops (run_tranche exec fop p base t ops st))
                      (out @ tranche_output fop (run_tranche exec fop p base t ops st))
                      (exitCursor err + 1)
                      (tranche_state p (run_tranche exec fop p base t ops st))"
    by (intro run_tranches_absorb) simp_all
next
  assume "truthy (ing_at (ingValues fop) 2)"
  then show none: "fst (runFork exec s) = None"
    unfolding runFork_fst[OF cur] fork_loop_def by (rule run_tranches_ignore)
  show "dish (snd (runFork exec s))
          = \<lparr>dvalue = Some (fst (snd (fork_loop exec fop s))), dtype = outputType fop\<rparr>"
    by (rule runFork_returned_dish[OF cur none])
next
  show "fst (runFork exec s) = fst (fork_loop exec fop s)"
    by (rule runFork_fst[OF cur])
qed

theorem runFork_tranche_failure_witness:
  "fst (runFork (exec_failing_on ''b'') (fork_state False (Some ''a,b,c'')))
     = Some (Failed \<lparr>exitCursor = 0, cause = OperationError ''b''\<rparr>)
   \<and> dish (snd (runFork (exec_failing_on ''b'') (fork_state False (Some ''a,b,c''))))
       = \<lparr>dvalue = Some ''a,b,c'', dtype = STRING\<rparr>
   \<and> fst (runFork (exec_failing_on ''b'') (fork_state True (Some ''a,b,c''))) = None
   \<and> dish (snd (runFork (exec_failing_on ''b'') (fork_state True (Some ''a,b,c''))))
       = \<lparr>dvalue = Some ''a;b;c;'', dtype = STRING\<rparr>
   \<and> run_tranches (exec_failing_on ''b'') (flow_op ''Fork'' [IStr '','', IStr '';'', IBool True]) 0 []
        [''b'', ''c''] [] ''a;'' 0 (fork_state True (Some ''a,b,c''))
       = run_tranches (exec_failing_on ''b'') (flow_op ''Fork'' [IStr '','', IStr '';'', IBool True]) 0 []
        [''c''] [] ''a;b;'' 1 (fork_state True (Some ''a,b,c''))"
proof -
  let ?E = "exec_failing_on ''b''"
  let ?fork = "\<lambda>ign. flow_op ''Fork'' [IStr '','', IStr '';'', IBool ign]"
  let ?s = "\<lambda>ign. fork_state ign (Some ''a,b,c'')"
  let ?err = "\<lparr>exitCursor = 0, cause = OperationError ''b''\<rparr>"
  have cur: "op_at (opList (?s ign)) (progress (?s ign)) = Some (?fork ign)" for ign
    by (simp add: fork_state_def op_at_def)
  have thrown: "fst (runFork ?E (?s False)) = Some (Failed ?err)"
    by (simp add: fork_eval)
  have frame: "\<forall>ops d c st. dish (out_state (?E ops d c st)) = dish st"
    by (simp add: exec_failing_on_def exec_identity_def)
  have set: "truthy (ing_at (ingValues (?fork True)) 2)"
    by (simp add: flow_op_def ing_at_def)
  have fails: "outcome (run_tranche ?E (?fork True) 0 [] ''b'' [] (?s True)) = Inl ?err"
    by (simp add: fork_eval)
  note t1 = runFork_tranche_failure[OF cur[of False], where exec = ?E and e = "Failed ?err"]
  note t2 = runFork_tranche_failure[OF cur[of True], where exec = ?E and p = 0 and base = "[]"
      and t = "''b''" and ts = "[''c'']" and ops = "[]" and st = "?s True" and err = ?err
      and out = "''a;''" and prog = 0]
  have a: "dish (snd (runFork ?E (?s False))) = dish (?s False)"
    using t1 thrown frame by blast
  have b: "fst (runFork ?E (?s True)) = None"
    using t2 set by blast
  have c: "run_tranches ?E (?fork True) 0 [] [''b'', ''c''] [] ''a;'' 0 (?s True)
       = run_tranches ?E (?fork True) 0 [] [''c''] []
           (''a;'' @ tranche_output (?fork True) (run_tranche ?E (?fork True) 0 [] ''b'' [] (?s True)))
           (exitCursor ?err + 1)
           (tranche_state 0 (run_tranche ?E (?fork True) 0 [] ''b'' [] (?s True)))"
    using t2 set fails by (simp add: fork_eval)
  have d: "tranche_output (?fork True) (run_tranche ?E (?fork True) 0 [] ''b'' [] (?s True)) = ''b;''"
    by (simp add: fork_eval)
  have e: "tranche_state 0 (run_tranche ?E (?fork True) 0 [] ''b'' [] (?s True)) = ?s True"
    by (simp add: fork_eval)
  have loop: "fst (snd (fork_loop ?E (?fork True) (?s True))) = ''a;b;c;''"
    by (simp add: fork_loop_def fork_eval)
  have f: "dish (snd (runFork ?E (?s True))) = \<lparr>dvalue = Some ''a;b;c;'', dtype = STRING\<rparr>"
    using t2 set unfolding loop by (simp add: flow_op_def)
  from thrown a b c f show ?thesis
    unfolding d e by (simp add: fork_state_def)
qed

lemma fork_inputs_empty:
  "input = None \<or> input = Some [] \<Longrightarrow> fork_inputs input splitDelim = []"
  by (auto simp: fork_inputs_def)

text \<open>
  C10. When the value read from the container is absent or the empty string, the fork
  runs no tranche (its result is the same for every interpreter), writes the empty
  string to the container under the output type of the fork, and adds 0 to the cursor.
\<close>

theorem runFork_empty_input:
  assumes cur: "op_at (opList s) (progress s) = Some fop"
      and empty: "dish_get (dish s) (inputType fop) = None \<or> dish_get (dish s) (inputType fop) = Some []"
  shows "runFork exec s =
           (None, s\<lparr>forkOffset := forkOffset s + (progress s + 1),
                    dish := dish_set (dish s) (Some []) (outputType fop),
                    progress := progress s + 0\<rparr>)"
  by (simp add: runFork_result[OF cur] fork_loop_def fork_inputs_empty[OF empty])

theorem runFork_empty_input_witness:
  "op_at (opList (fork_state False (Some []))) (progress (fork_state False (Some [])))
     = Some (flow_op ''Fork'' [IStr '','', IStr '';'', IBool False])
   \<and> dish_get (dish (fork_state False (Some []))) STRING = Some []
   \<and> runFork (exec_failing_on ''x'') (fork_state False (Some []))
       = (None, (fork_state False (Some []))\<lparr>forkOffset := 1\<rparr>)"
proof -
  let ?fork = "flow_op ''Fork'' [IStr '','', IStr '';'', IBool False]"
  have cur: "op_at (opList (fork_state False (Some []))) (progress (fork_state False (Some []))) = Some ?fork"
    by (simp add: fork_state_def op_at_def)
  have empty: "dish_get (dish (fork_state False (Some []))) (inputType ?fork) = None
             \<or> dish_get (dish (fork_state False (Some []))) (inputType ?fork) = Some []"
    by (simp add: fork_state_def dish_get_def)
  have "runFork (exec_failing_on ''x'') (fork_state False (Some []))
       = (None, (fork_state False (Some []))\<lparr>forkOffset := 1\<rparr>)"
    using runFork_empty_input[OF cur empty, of "exec_failing_on ''x''"]
    by (simp add: fork_state_def flow_op_def dish_set_def)
  with cur show ?thesis by (simp add: fork_state_def dish_get_def)
qed

text \<open>
  C9. A fork adds the cursor plus one to the fork offset, and nothing takes it back:
  after the fork, returned or thrown, the offset is the old one plus the cursor plus
  one, for every interpreter that leaves the offset alone; so it is when there is no
  tranche; and the interpreter of the first tranche is handed the offset already
  increased, as the failure of the probing executor reports, which leaves the fork with
  \<open>ignoreErrors\<close> not set while the state keeps the increased offset.
\<close>

theorem runFork_forkOffset_persists:
  assumes cur: "op_at (opList s) (progress s) = Some fop"
  shows "((\<forall>ops d c st. forkOffset (out_state (exec ops d c st)) = forkOffset st)
            \<longrightarrow> forkOffset (snd (runFork exec s)) = forkOffset s + (progress s + 1))
       \<and> (fork_inputs (dish_get (dish s) (inputType fop)) (ing_at (ingValues fop) 0) = []
            \<longrightarrow> fst (runFork exec s) = None
                \<and> forkOffset (snd (runFork exec s)) = forkOffset s + (progress s + 1))
       \<and> (fork_inputs (dish_get (dish s) (inputType fop)) (ing_at (ingValues fop) 0) \<noteq> []
          \<and> \<not> truthy (ing_at (ingValues fop) 2)
            \<longrightarrow> fst (runFork offset_probe s)
                  = Some (Failed \<lparr>exitCursor = forkOffset s + (progress s + 1), cause = OperationError []\<rparr>)
                \<and> forkOffset (snd (runFork offset_probe s)) = forkOffset s + (progress s + 1))"
proof (intro conjI impI)
  assume "\<forall>ops d c st. forkOffset (out_state (exec ops d c st)) = forkOffset st"
  then show "forkOffset (snd (runFork exec s)) = forkOffset s + (progress s + 1)"
    unfolding runFork_forkOffset[OF cur] fork_loop_def by (simp add: run_tranches_forkOffset)
next
  assume "fork_inputs (dish_get (dish s) (inputType fop)) (ing_at (ingValues fop) 0) = []"
  then show "fst (runFork exec s) = None"
    and "forkOffset (snd (runFork exec s)) = forkOffset s + (progress s + 1)"
    by (simp_all add: runFork_fst[OF cur] runFork_forkOffset[OF cur] fork_loop_def)
next
  assume a: "fork_inputs (dish_get (dish s) (inputType fop)) (ing_at (ingValues fop) 0) \<noteq> []
          \<and> \<not> truthy (ing_at (ingValues fop) 2)"
  then obtain t ts where ts: "fork_inputs (dish_get (dish s) (inputType fop)) (ing_at (ingValues fop) 0) = t # ts"
    by (cases "fork_inputs (dish_get (dish s) (inputType fop)) (ing_at (ingValues fop) 0)") auto
  show "fst (runFork offset_probe s)
                  = Some (Failed \<lparr>exitCursor = forkOffset s + (progress s + 1), cause = OperationError []\<rparr>)"
    using a by (simp add: runFork_fst[OF cur] fork_loop_def ts Let_def run_tranche_def offset_probe_def)
  show "forkOffset (snd (runFork offset_probe s)) = forkOffset s + (progress s + 1)"
    unfolding runFork_forkOffset[OF cur] fork_loop_def
    by (rule trans[OF run_tranches_forkOffset]) (simp_all add: offset_probe_def)
qed

theorem runFork_forkOffset_persists_witness:
  "forkOffset (snd (runFork exec_identity (fork_state False (Some ''a,b'')))) = 1
   \<and> fst (runFork exec_identity (fork_state False None)) = None
   \<and> forkOffset (snd (runFork exec_identity (fork_state False None))) = 1
   \<and> fst (runFork offset_probe (fork_state False (Some ''a,b'')))
       = Some (Failed \<lparr>exitCursor = 1, cause = OperationError []\<rparr>)
   \<and> forkOffset (snd (runFork offset_probe (fork_state False (Some ''a,b'')))) = 1"
proof -
  let ?fork = "flow_op ''Fork'' [IStr '','', IStr '';'', IBool False]"
  have cur: "op_at (opList (fork_state False v)) (progress (fork_state False v)) = Some ?fork" for v
    by (simp add: fork_state_def op_at_def)
  have frame: "\<forall>ops d c st. forkOffset (out_state (exec_identity ops d c st)) = forkOffset st"
    by (simp add: exec_identity_def)
  have none: "fork_inputs (dish_get (dish (fork_state False None)) (inputType ?fork)) (ing_at (ingValues ?fork) 0) = []"
    by (simp add: fork_state_def dish_get_def fork_inputs_def)
  have some: "fork_inputs (dish_get (dish (fork_state False (Some ''a,b''))) (inputType ?fork)) (ing_at (ingValues ?fork) 0) \<noteq> []"
    by (simp add: fork_state_def dish_get_def fork_inputs_def js_split_def flow_op_def ing_at_def)
  have unset: "\<not> truthy (ing_at (ingValues ?fork) 2)"
    by (simp add: flow_op_def ing_at_def)
  have vals: "forkOffset (fork_state False v) + (progress (fork_state False v) + 1) = 1" for v
    by (simp add: fork_state_def)
  show ?thesis
    using runFork_forkOffset_persists[OF cur[of "Some ''a,b''"], of exec_identity]
          runFork_forkOffset_persists[OF cur[of None], of exec_identity]
          frame none some unset
    by (simp add: vals)
qed

lemma concat_ends:
  "xs \<noteq> [] \<Longrightarrow> \<exists>pre. concat (map (\<lambda>t. t @ d) xs) = pre @ d"
proof -
  assume "xs \<noteq> []"
  then have "xs = butlast xs @ [last xs]" by simp
  then have "concat (map (\<lambda>t. t @ d) xs) = concat (map (\<lambda>t. t @ d) (butlast xs @ [last xs]))"
    by simp
  also have "\<dots> = (concat (map (\<lambda>t. t @ d) (butlast xs)) @ last xs) @ d" by simp
  finally show ?thesis by blast
qed

text \<open>
  C6. With a sub-pipeline that succeeds on every tranche and leaves the container of
  the tranche as it is, the fork returns with the container holding every tranche
  followed by the merge delimiter, in order, under the output type of the fork: with at
  least one tranche the value ends with the merge delimiter. For the value \<^verbatim>\<open>a,b,c\<close>
  split on \<^verbatim>\<open>,\<close> and merged with \<^verbatim>\<open>;\<close> it is \<^verbatim>\<open>a;b;c;\<close>.
\<close>

theorem runFork_merge_roundtrip:
  assumes cur: "op_at (opList s) (progress s) = Some fop"
      and same: "\<And>ops d c st. out_dish (exec ops d c st) = d"
      and ok: "\<And>ops d c st. \<exists>pr. outcome (exec ops d c st) = Inr pr"
  shows "fst (runFork exec s) = None
       \<and> dish (snd (runFork exec s))
           = \<lparr>dvalue = Some (concat (map (\<lambda>t. t @ to_str (ing_at (ingValues fop) 1))
                               (fork_inputs (dish_get (dish s) (inputType fop)) (ing_at (ingValues fop) 0)))),
              dtype = outputType fop\<rparr>
       \<and> (fork_inputs (dish_get (dish s) (inputType fop)) (ing_at (ingValues fop) 0) \<noteq> []
            \<longrightarrow> (\<exists>pre. dvalue (dish (snd (runFork exec s))) = Some (pre @ to_str (ing_at (ingValues fop) 1))))
       \<and> (dish_get (dish s) (inputType fop) = Some ''a,b,c''
            \<and> ing_at (ingValues fop) 0 = Some (IStr '','') \<and> ing_at (ingValues fop) 1 = Some (IStr '';'')
            \<longrightarrow> dvalue (dish (snd (runFork exec s))) = Some ''a;b;c;'')"
proof -
  note id = run_tranches_identity[of exec, OF same ok]
  have none: "fst (runFork exec s) = None"
    unfolding runFork_fst[OF cur] fork_loop_def using id by blast
  have d: "dish (snd (runFork exec s))
           = \<lparr>dvalue = Some (concat (map (\<lambda>t. t @ to_str (ing_at (ingValues fop) 1))
                               (fork_inputs (dish_get (dish s) (inputType fop)) (ing_at (ingValues fop) 0)))),
              dtype = outputType fop\<rparr>"
    unfolding runFork_returned_dish[OF cur none] fork_loop_def using id by simp
  have e: "fork_inputs (dish_get (dish s) (inputType fop)) (ing_at (ingValues fop) 0) \<noteq> []
            \<longrightarrow> (\<exists>pre. dvalue (dish (snd (runFork exec s))) = Some (pre @ to_str (ing_at (ingValues fop) 1)))"
    unfolding d using concat_ends by auto
  have "fork_inputs (Some ''a,b,c'') (Some (IStr '','')) = [''a'', ''b'', ''c'']"
    by (simp add: fork_inputs_def js_split_def)
  with none d e show ?thesis by simp
qed

theorem runFork_merge_roundtrip_witness:
  "fst (runFork exec_identity (fork_state False (Some ''a,b,c''))) = None
   \<and> dish (snd (runFork exec_identity (fork_state False (Some ''a,b,c''))))
       = \<lparr>dvalue = Some ''a;b;c;'', dtype = STRING\<rparr>"
proof -
  let ?fork = "flow_op ''Fork'' [IStr '','', IStr '';'', IBool False]"
  let ?s = "fork_state False (Some ''a,b,c'')"
  have cur: "op_at (opList ?s) (progress ?s) = Some ?fork"
    by (simp add: fork_state_def op_at_def)
  have same: "\<And>ops d c st. out_dish (exec_identity ops d c st) = d"
    by (simp add: exec_identity_def)
  have ok: "\<And>ops d c st. \<exists>pr. outcome (exec_identity ops d c st) = Inr pr"
    by (simp add: exec_identity_def)
  have input: "dish_get (dish ?s) (inputType ?fork) = Some ''a,b,c''
      \<and> ing_at (ingValues ?fork) 0 = Some (IStr '','') \<and> ing_at (ingValues ?fork) 1 = Some (IStr '';'')"
    by (simp add: fork_state_def dish_get_def flow_op_def ing_at_def)
  have out: "outputType ?fork = STRING" by (simp add: flow_op_def)
  note t = runFork_merge_roundtrip[of ?s ?fork exec_identity, OF cur same ok]
  have a: "fst (runFork exec_identity ?s) = None"
    using t by blast
  have v: "dvalue (dish (snd (runFork exec_identity ?s))) = Some ''a;b;c;''"
    using t input by blast
  have "dtype (dish (snd (runFork exec_identity ?s))) = outputType ?fork"
    using t by simp
  then have ty: "dtype (dish (snd (runFork exec_identity ?s))) = STRING"
    by (simp add: out)
  from a v ty show ?thesis by (cases "dish (snd (runFork exec_identity ?s))") simp
qed

subsection \<open>Label resolution\<close>

text \<open>
  What the resolver returns: \<open>- 1\<close> exactly when no operation of the list is a label
  of the name, and otherwise the position of the first one; the \<^verbatim>\<open>disabled\<close> flag is
  not read.
\<close>

lemma getLabelIndex_from_not_found:
  "0 \<le> i \<Longrightarrow>
   (getLabelIndex_from nm ops i = - 1)
     = (\<forall>x \<in> set ops. \<not> (name x = ''Label'' \<and> strict_eq nm (ing_at (ingValues x) 0)))"
proof (induction ops arbitrary: i)
  case Nil
  show ?case by simp
next
  case (Cons x xs)
  from Cons.prems have "0 \<le> i + 1" by simp
  from Cons.IH[OF this] Cons.prems show ?case by auto
qed

lemma getLabelIndex_from_first:
  "0 \<le> i \<Longrightarrow> getLabelIndex_from nm ops i \<noteq> - 1 \<Longrightarrow>
   i \<le> getLabelIndex_from nm ops i \<and> getLabelIndex_from nm ops i < i + int (length ops)
   \<and> name (ops ! nat (getLabelIndex_from nm ops i - i)) = ''Label''
   \<and> strict_eq nm (ing_at (ingValues (ops ! nat (getLabelIndex_from nm ops i - i))) 0)
   \<and> (\<forall>k < nat (getLabelIndex_from nm ops i - i).
         \<not> (name (ops ! k) = ''Label'' \<and> strict_eq nm (ing_at (ingValues (ops ! k)) 0)))"
proof (induction ops arbitrary: i)
  case Nil
  then show ?case by simp
next
  case (Cons x xs)
  show ?case
  proof (cases "name x = ''Label'' \<and> strict_eq nm (ing_at (ingValues x) 0)")
    case True
    then show ?thesis by simp
  next
    case False
    then have eq: "getLabelIndex_from nm (x # xs) i = getLabelIndex_from nm xs (i + 1)" by auto
    from Cons.prems have i1: "0 \<le> i + 1" by simp
    from Cons.prems(2) eq have ne: "getLabelIndex_from nm xs (i + 1) \<noteq> - 1" by simp
    note ih = Cons.IH[OF i1 ne]
    let ?r = "getLabelIndex_from nm xs (i + 1)"
    from ih have n: "nat (?r - i) = Suc (nat (?r - (i + 1)))" by linarith
    show ?thesis
      unfolding eq n using ih False
      by (auto simp: less_Suc_eq_0_disj)
  qed
qed

lemma getLabelIndex_first_label:
  "(getLabelIndex nm s = - 1
      \<longrightarrow> (\<forall>x \<in> set (opList s). \<not> (name x = ''Label'' \<and> strict_eq nm (ing_at (ingValues x) 0))))
   \<and> (getLabelIndex nm s \<noteq> - 1
      \<longrightarrow> (\<exists>x. op_at (opList s) (getLabelIndex nm s) = Some x
               \<and> name x = ''Label'' \<and> strict_eq nm (ing_at (ingValues x) 0))
          \<and> (\<forall>k < nat (getLabelIndex nm s).
                \<not> (name (opList s ! k) = ''Label'' \<and> strict_eq nm (ing_at (ingValues (opList s ! k)) 0))))"
  using getLabelIndex_from_not_found[of 0 nm "opList s"] getLabelIndex_from_first[of 0 nm "opList s"]
  by (auto simp: getLabelIndex_def op_at_def)

text \<open>
  C3. The resolver scans the list from position 0 and returns the first label of the
  name, but it does not pass over a disabled one: for a disabled label \<^verbatim>\<open>a\<close> at
  position 0 it returns 0, where the specification has "not found", and with an enabled label
  \<^verbatim>\<open>a\<close> after it it returns 0 as well, where the specification has 1. The scan for the merge
  in \<^verbatim>\<open>runFork\<close> and the loop of \<^verbatim>\<open>runRegister\<close> do read the flag.
\<close>

theorem getLabelIndex_disabled_label:
  "getLabelIndex (Some (IStr ''a''))
     \<lparr>progress = 0, dish = new_dish,
      opList = [(flow_op ''Label'' [IStr ''a''])\<lparr>disabled := True\<rparr>],
      numJumps = 0, numRegisters = 0, forkOffset = 0\<rparr> = 0
   \<and> getLabelIndex (Some (IStr ''a''))
     \<lparr>progress = 0, dish = new_dish,
      opList = [(flow_op ''Label'' [IStr ''a''])\<lparr>disabled := True\<rparr>, flow_op ''Label'' [IStr ''a'']],
      numJumps = 0, numRegisters = 0, forkOffset = 0\<rparr> = 0"
  by (simp add: getLabelIndex_def flow_op_def ing_at_def)

subsection \<open>The conditional jump\<close>

text \<open>The definitions that evaluate a jump on a given state.\<close>

lemmas jump_eval =
  runJump_def runCondJump_def op_at_def ing_at_def js_ge_def getLabelIndex_def Let_def
  loop_state_def jump_loop_def cond_state_def flow_op_def twice_def again_def

text \<open>
  What the Conditional Jump does once its budget is open and its label found: with the
  empty pattern it returns the state as it is; with any other pattern it throws the
  TypeError, whatever the value and whatever \<^verbatim>\<open>invert\<close>. It returns no state but the
  one it was given.
\<close>

lemma runCondJump_empty_pattern:
  "op_at (opList s) (progress s) = Some cur \<Longrightarrow> ing_at (ingValues cur) 0 = Some (IStr []) \<Longrightarrow>
   runCondJump s = Inr s"
  by (simp add: runCondJump_def Let_def)

lemma runCondJump_pattern_throws:
  "op_at (opList s) (progress s) = Some cur \<Longrightarrow>
   \<not> js_ge (numJumps s) (ing_at (ingValues cur) 3) \<Longrightarrow>
   getLabelIndex (ing_at (ingValues cur) 2) s \<noteq> - 1 \<Longrightarrow>
   \<not> strict_eq (ing_at (ingValues cur) 0) (Some (IStr [])) \<Longrightarrow>
   runCondJump s = Inl (Raised TypeError)"
  by (simp add: runCondJump_def Let_def)

lemma runCondJump_cases:
  "runCondJump s = Inr s' \<Longrightarrow> s' = s"
  by (auto simp: runCondJump_def Let_def split: option.splits if_splits)

text \<open>
  C7. With the empty pattern the Conditional Jump returns the state as it is. With a
  non-empty pattern it does not get to test the match against \<^verbatim>\<open>invert\<close>: on the
  value \<^verbatim>\<open>abc\<close>, with the budget 5 open and the label found, the pattern \<^verbatim>\<open>b\<close>
  without \<^verbatim>\<open>invert\<close> (a match, so a jump is due) and the pattern \<^verbatim>\<open>x\<close> with
  \<^verbatim>\<open>invert\<close> (no match, so a jump is due) both end in the TypeError, and no jump is
  taken.
\<close>

theorem runCondJump_throws_on_pattern:
  "runCondJump (cond_state ''b'' False 1 ''abc'' 0) = Inl (Raised TypeError)
   \<and> runCondJump (cond_state ''x'' True 1 ''abc'' 0) = Inl (Raised TypeError)
   \<and> runCondJump (cond_state [] False 1 ''abc'' 0) = Inr (cond_state [] False 1 ''abc'' 0)"
  by (simp add: jump_eval)

subsection \<open>Repeated jumps\<close>

lemma runJump_cases:
  "runJump s = Inr s' \<Longrightarrow> s' = s \<or> numJumps s' = numJumps s + 1"
  by (auto simp: runJump_def Let_def split: option.splits if_splits)

lemma twice_unchanged: "f s = Inr s \<Longrightarrow> twice f s = f s"
  by (simp add: twice_def)

lemma again_unchanged: "f s = Inr s \<Longrightarrow> again f s = f s"
  by (simp add: again_def)

lemma runJump_not_taken:
  "op_at (opList s) (progress s) = Some cur \<Longrightarrow>
   js_ge (numJumps s) (ing_at (ingValues cur) 1) \<or> getLabelIndex (ing_at (ingValues cur) 0) s = - 1 \<Longrightarrow>
   runJump s = Inr s"
  by (auto simp: runJump_def Let_def)

lemma runJump_taken:
  "op_at (opList s) (progress s) = Some cur \<Longrightarrow>
   \<not> js_ge (numJumps s) (ing_at (ingValues cur) 1) \<Longrightarrow>
   getLabelIndex (ing_at (ingValues cur) 0) s \<noteq> - 1 \<Longrightarrow>
   runJump s = Inr (s\<lparr>progress := getLabelIndex (ing_at (ingValues cur) 0) s,
                        numJumps := numJumps s + 1\<rparr>)"
  by (simp add: runJump_def Let_def)

lemma runCondJump_not_taken:
  "op_at (opList s) (progress s) = Some cur \<Longrightarrow>
   js_ge (numJumps s) (ing_at (ingValues cur) 3) \<or> getLabelIndex (ing_at (ingValues cur) 2) s = - 1
     \<or> ing_at (ingValues cur) 0 = Some (IStr []) \<Longrightarrow>
   runCondJump s = Inr s"
  by (auto simp: runCondJump_def Let_def)

text \<open>
  C8, as stated, fails: the jump of the self-targeting recipe, applied to the state it
  has returned, jumps again, since the label it now stands on names itself and has no
  budget, and the counter is 2 and not 1; applied again at its own position it jumps
  again as well.
\<close>

theorem jump_not_idempotent:
  "twice runJump (loop_state ''L'' 2 new_dish 0 0 1 0) \<noteq> runJump (loop_state ''L'' 2 new_dish 0 0 1 0)
   \<and> again runJump (loop_state ''L'' 2 new_dish 0 0 1 0) \<noteq> runJump (loop_state ''L'' 2 new_dish 0 0 1 0)"
  by (simp add: jump_eval)

text \<open>
  C8, amended. Where the budget is spent or the label is not found, and for the
  Conditional Jump where the pattern is empty as well, a jump operation returns the
  state it was given, and applying it twice (to the returned state, or again at the
  same position) gives what applying it once gives. Where the budget is open and the
  label is found, the unconditional Jump returns the state with the cursor at the
  label and the jump counter increased by one, which is another state than the one it
  was given. An unconditional Jump that returns with the counter as it was has returned
  the state it was given.
\<close>

theorem jump_idempotent_unless_taken:
  assumes cur: "op_at (opList s) (progress s) = Some cur"
  shows "(js_ge (numJumps s) (ing_at (ingValues cur) 1)
            \<or> getLabelIndex (ing_at (ingValues cur) 0) s = - 1
          \<longrightarrow> runJump s = Inr s \<and> twice runJump s = runJump s \<and> again runJump s = runJump s)
       \<and> (js_ge (numJumps s) (ing_at (ingValues cur) 3)
            \<or> getLabelIndex (ing_at (ingValues cur) 2) s = - 1
            \<or> ing_at (ingValues cur) 0 = Some (IStr [])
          \<longrightarrow> runCondJump s = Inr s \<and> twice runCondJump s = runCondJump s
              \<and> again runCondJump s = runCondJump s)
       \<and> (\<not> js_ge (numJumps s) (ing_at (ingValues cur) 1)
            \<and> getLabelIndex (ing_at (ingValues cur) 0) s \<noteq> - 1
          \<longrightarrow> runJump s = Inr (s\<lparr>progress := getLabelIndex (ing_at (ingValues cur) 0) s,
                                   numJumps := numJumps s + 1\<rparr>)
              \<and> runJump s \<noteq> Inr s)
       \<and> (runJump s = Inr s' \<and> numJumps s' = numJumps s \<longrightarrow> s' = s)"
proof (intro conjI impI)
  assume "js_ge (numJumps s) (ing_at (ingValues cur) 1)
            \<or> getLabelIndex (ing_at (ingValues cur) 0) s = - 1"
  then show same: "runJump s = Inr s"
    by (rule runJump_not_taken[OF cur])
  then show "twice runJump s = runJump s" and "again runJump s = runJump s"
    by (simp_all add: twice_unchanged again_unchanged)
next
  assume "js_ge (numJumps s) (ing_at (ingValues cur) 3)
            \<or> getLabelIndex (ing_at (ingValues cur) 2) s = - 1
            \<or> ing_at (ingValues cur) 0 = Some (IStr [])"
  then show same: "runCondJump s = Inr s"
    by (rule runCondJump_not_taken[OF cur])
  then show "twice runCondJump s = runCondJump s" and "again runCondJump s = runCondJump s"
    by (simp_all add: twice_unchanged again_unchanged)
next
  assume a: "\<not> js_ge (numJumps s) (ing_at (ingValues cur) 1)
            \<and> getLabelIndex (ing_at (ingValues cur) 0) s \<noteq> - 1"
  then show taken: "runJump s = Inr (s\<lparr>progress := getLabelIndex (ing_at (ingValues cur) 0) s,
                                   numJumps := numJumps s + 1\<rparr>)"
    by (intro runJump_taken[OF cur]) simp_all
  have "numJumps (s\<lparr>progress := getLabelIndex (ing_at (ingValues cur) 0) s,
                    numJumps := numJumps s + 1\<rparr>) \<noteq> numJumps s"
    by simp
  then have "s\<lparr>progress := getLabelIndex (ing_at (ingValues cur) 0) s,
               numJumps := numJumps s + 1\<rparr> \<noteq> s"
    by metis
  with taken show "runJump s \<noteq> Inr s" by simp
next
  assume "runJump s = Inr s' \<and> numJumps s' = numJumps s"
  with runJump_cases[of s s'] show "s' = s" by auto
qed

theorem jump_idempotent_unless_taken_witness:
  "runJump (loop_state ''L'' 2 new_dish 0 0 1 2) = Inr (loop_state ''L'' 2 new_dish 0 0 1 2)
   \<and> twice runJump (loop_state ''L'' 2 new_dish 0 0 1 2) = runJump (loop_state ''L'' 2 new_dish 0 0 1 2)
   \<and> runCondJump (cond_state [] False 1 ''abc'' 0) = Inr (cond_state [] False 1 ''abc'' 0)
   \<and> twice runCondJump (cond_state [] False 1 ''abc'' 0) = runCondJump (cond_state [] False 1 ''abc'' 0)
   \<and> runCondJump (cond_state ''b'' False 1 ''abc'' 5) = Inr (cond_state ''b'' False 1 ''abc'' 5)
   \<and> runJump (loop_state ''L'' 2 new_dish 0 0 1 0) = Inr (loop_state ''L'' 2 new_dish 0 0 0 1)
   \<and> runJump (loop_state ''L'' 2 new_dish 0 0 1 0) \<noteq> Inr (loop_state ''L'' 2 new_dish 0 0 1 0)"
proof -
  let ?jump = "flow_op ''Jump'' [IStr ''L'', INum 2]"
  let ?cj = "\<lambda>pat. flow_op ''Conditional Jump'' [IStr pat, IBool False, IStr ''L'', INum 5]"
  have jcur: "op_at (opList (loop_state ''L'' 2 new_dish 0 0 1 j)) (progress (loop_state ''L'' 2 new_dish 0 0 1 j))
      = Some ?jump" for j
    using loop_op_at(2)[of "''L''" 2 new_dish 0 0 j] by simp
  have ccur: "op_at (opList (cond_state pat False 1 ''abc'' j)) (progress (cond_state pat False 1 ''abc'' j))
      = Some (?cj pat)" for pat j
    by (simp add: cond_state_def op_at_def)
  have spent: "js_ge (numJumps (loop_state ''L'' 2 new_dish 0 0 1 2)) (ing_at (ingValues ?jump) 1)"
    by (simp add: js_ge_def ing_at_def flow_op_def loop_state_def)
  have empty: "ing_at (ingValues (?cj [])) 0 = Some (IStr [])"
    by (simp add: ing_at_def flow_op_def)
  have cspent: "js_ge (numJumps (cond_state ''b'' False 1 ''abc'' 5)) (ing_at (ingValues (?cj ''b'')) 3)"
    by (simp add: js_ge_def ing_at_def flow_op_def cond_state_def)
  have open_budget: "\<not> js_ge (numJumps (loop_state ''L'' 2 new_dish 0 0 1 0)) (ing_at (ingValues ?jump) 1)"
    by (simp add: js_ge_def ing_at_def flow_op_def loop_state_def)
  have found: "getLabelIndex (ing_at (ingValues ?jump) 0) (loop_state ''L'' 2 new_dish 0 0 1 0) = 0"
    by (simp add: ing_at_def flow_op_def loop_label)
  note t1 = jump_idempotent_unless_taken[OF jcur[of 2]]
  note t2 = jump_idempotent_unless_taken[OF ccur[of "[]" 0]]
  note t3 = jump_idempotent_unless_taken[OF ccur[of "''b''" 5]]
  note t4 = jump_idempotent_unless_taken[OF jcur[of 0]]
  have a: "runJump (loop_state ''L'' 2 new_dish 0 0 1 2) = Inr (loop_state ''L'' 2 new_dish 0 0 1 2)"
    and a2: "twice runJump (loop_state ''L'' 2 new_dish 0 0 1 2) = runJump (loop_state ''L'' 2 new_dish 0 0 1 2)"
    using t1 spent by blast+
  have b: "runCondJump (cond_state [] False 1 ''abc'' 0) = Inr (cond_state [] False 1 ''abc'' 0)"
    and b2: "twice runCondJump (cond_state [] False 1 ''abc'' 0) = runCondJump (cond_state [] False 1 ''abc'' 0)"
    using t2 empty by blast+
  have c: "runCondJump (cond_state ''b'' False 1 ''abc'' 5) = Inr (cond_state ''b'' False 1 ''abc'' 5)"
    using t3 cspent by blast
  have "runJump (loop_state ''L'' 2 new_dish 0 0 1 0)
          = Inr ((loop_state ''L'' 2 new_dish 0 0 1 0)
                   \<lparr>progress := getLabelIndex (ing_at (ingValues ?jump) 0) (loop_state ''L'' 2 new_dish 0 0 1 0),
                    numJumps := numJumps (loop_state ''L'' 2 new_dish 0 0 1 0) + 1\<rparr>)"
    using t4 open_budget found by simp
  moreover have "(loop_state ''L'' 2 new_dish 0 0 1 0)
                   \<lparr>progress := 0, numJumps := numJumps (loop_state ''L'' 2 new_dish 0 0 1 0) + 1\<rparr>
                 = loop_state ''L'' 2 new_dish 0 0 0 1"
    by (simp add: loop_state_def)
  ultimately have d: "runJump (loop_state ''L'' 2 new_dish 0 0 1 0) = Inr (loop_state ''L'' 2 new_dish 0 0 0 1)"
    unfolding found by simp
  have found_ne: "getLabelIndex (ing_at (ingValues ?jump) 0) (loop_state ''L'' 2 new_dish 0 0 1 0) \<noteq> - 1"
    using found by simp
  have d2: "runJump (loop_state ''L'' 2 new_dish 0 0 1 0) \<noteq> Inr (loop_state ''L'' 2 new_dish 0 0 1 0)"
    using t4 open_budget found_ne by blast
  from a a2 b b2 c d d2 show ?thesis by blast
qed

subsection \<open>Register substitution\<close>

lemma backslash_not_dollar: "CHR ''$'' \<noteq> backslash"
  by (simp add: backslash_def)

lemma slashes_run:
  "takeWhile (\<lambda>c. c = backslash) (replicate k backslash @ CHR ''$'' # xs) = replicate k backslash"
  "dropWhile (\<lambda>c. c = backslash) (replicate k backslash @ CHR ''$'' # xs) = CHR ''$'' # xs"
  by (induction k) (simp_all add: backslash_not_dollar)

lemma match_token_at:
  assumes "ds = [d1] \<or> ds = [d1, d2]" and "list_all is_digit ds"
      and "length ds = 1 \<longrightarrow> rest = [] \<or> \<not> is_digit (hd rest)"
  shows "match_token (replicate k backslash @ ''$R'' @ ds @ rest) = Some (replicate k backslash, ds, rest)"
  using assms
  by (auto simp: match_token_def Let_def slashes_run split: list.splits)

lemma replaceRegister_match:
  "s \<noteq> [] \<Longrightarrow> match_token s = Some (slashes, regNum, rest) \<Longrightarrow>
   replaceRegister numRegs registers s
     = replacement numRegs registers slashes regNum @ replaceRegister numRegs registers rest"
  by (cases s) simp_all

lemma replaceRegister_token:
  assumes "ds = [d1] \<or> ds = [d1, d2]" and "list_all is_digit ds"
      and "length ds = 1 \<longrightarrow> rest = [] \<or> \<not> is_digit (hd rest)"
  shows "replaceRegister numRegs registers (replicate k backslash @ ''$R'' @ ds @ rest)
         = replacement numRegs registers (replicate k backslash) ds @ replaceRegister numRegs registers rest"
  by (rule replaceRegister_match[OF _ match_token_at[OF assms]]) simp

text \<open>
  Text without \<^verbatim>\<open>$\<close> that does not end in a backslash holds no match and takes no
  part in one that follows it: it is kept as it is.
\<close>

lemma match_token_plain:
  assumes "CHR ''$'' \<notin> set (c # cs)" and "last (c # cs) \<noteq> backslash"
  shows "match_token (c # cs @ s) = None"
proof -
  let ?P = "\<lambda>x. x = backslash"
  from assms(2) have ex: "\<exists>x \<in> set (c # cs). \<not> ?P x"
    using last_in_set[of "c # cs"] by blast
  then obtain y where y: "y \<in> set (c # cs)" "\<not> ?P y" by blast
  have split: "dropWhile ?P ((c # cs) @ s) = dropWhile ?P (c # cs) @ s"
    using dropWhile_append1[of y "c # cs" ?P s] y by simp
  from ex have "dropWhile ?P (c # cs) \<noteq> []" by (simp del: dropWhile.simps) 
  then obtain x xs where x: "dropWhile ?P (c # cs) = x # xs"
    by (cases "dropWhile ?P (c # cs)") auto
  then have "x \<in> set (c # cs)"
    using set_dropWhileD[of x ?P "c # cs"] by simp
  with assms(1) have "x \<noteq> CHR ''$''" by auto
  with x split show ?thesis
    by (simp add: match_token_def Let_def del: dropWhile.simps split: list.splits)
qed

lemma replaceRegister_plain_prefix:
  "CHR ''$'' \<notin> set pre \<Longrightarrow> pre = [] \<or> last pre \<noteq> backslash \<Longrightarrow>
   replaceRegister numRegs registers (pre @ s) = pre @ replaceRegister numRegs registers s"
proof (induction pre)
  case Nil
  show ?case by simp
next
  case (Cons c cs)
  from Cons.prems have none: "match_token (c # cs @ s) = None"
    by (intro match_token_plain) auto
  from Cons.prems have "CHR ''$'' \<notin> set cs" and "cs = [] \<or> last cs \<noteq> backslash"
    by (auto split: if_splits)
  from Cons.IH[OF this] none show ?case by simp
qed

lemma drop_escape: "odd k \<Longrightarrow> drop 1 (replicate k backslash @ xs) = replicate (k - 1) backslash @ xs"
  by (cases k) simp_all

lemma replacement_in_range:
  assumes "numRegs < parseInt10 ds + 1" and "parseInt10 ds + 1 < numRegs + int (length registers)"
  shows "replacement numRegs registers (replicate k backslash) ds
         = (if odd k then replicate (k - 1) backslash @ ''$R'' @ ds
            else replicate k backslash @ reg_str (registers ! nat (parseInt10 ds + 1 - numRegs)))"
  using assms by (simp add: replacement_def Let_def drop_escape odd_iff_mod_2_eq_one)

lemma replacement_out_of_range:
  assumes "\<not> (numRegs < parseInt10 ds + 1 \<and> parseInt10 ds + 1 \<le> numRegs + (int (length registers) - 1))"
  shows "replacement numRegs registers slashes ds = slashes @ ''$R'' @ ds"
  using assms by (auto simp: replacement_def Let_def)

text \<open>
  C4. Take a token: \<open>k\<close> backslashes, \<^verbatim>\<open>$R\<close> and one or two digits \<open>ds\<close> (one digit
  only where no digit follows), whose index, the value of the digits plus one, is that of
  a register just captured. The callback gives, for an odd \<open>k\<close>, the token without its
  first backslash and with no substitution; for an even \<open>k\<close>, zero too, the
  backslashes followed by the captured value \<open>registers[index - numRegisters]\<close>. In the
  replacement of a string, a token that stands after text without \<^verbatim>\<open>$\<close> that does
  not end in a backslash (so that the \<open>k\<close> backslashes are all that precede the
  \<^verbatim>\<open>$R\<close>) is replaced by just that: the text before it is kept, and the replacement
  goes on with the rest.
\<close>

theorem replaceRegister_escaping:
  assumes pre: "CHR ''$'' \<notin> set pre" "pre = [] \<or> last pre \<noteq> backslash"
      and tok: "ds = [d1] \<or> ds = [d1, d2]" "list_all is_digit ds"
               "length ds = 1 \<longrightarrow> rest = [] \<or> \<not> is_digit (hd rest)"
      and inrange: "numRegs < parseInt10 ds + 1" "parseInt10 ds + 1 < numRegs + int (length registers)"
  shows "replacement numRegs registers (replicate k backslash) ds
           = (if odd k then replicate (k - 1) backslash @ ''$R'' @ ds
              else replicate k backslash @ reg_str (registers ! nat (parseInt10 ds + 1 - numRegs)))
       \<and> replaceRegister numRegs registers (pre @ replicate k backslash @ ''$R'' @ ds @ rest)
           = pre @ (if odd k then replicate (k - 1) backslash @ ''$R'' @ ds
                    else replicate k backslash @ reg_str (registers ! nat (parseInt10 ds + 1 - numRegs)))
             @ replaceRegister numRegs registers rest"
  unfolding replaceRegister_plain_prefix[OF pre] replaceRegister_token[OF tok]
    replacement_in_range[OF inrange]
  by simp

theorem replaceRegister_escaping_witness:
  "CHR ''$'' \<notin> set ''x='' \<and> last ''x='' \<noteq> backslash
   \<and> list_all is_digit ''1''
   \<and> (0::int) < parseInt10 ''1'' + 1
   \<and> parseInt10 ''1'' + 1 < 0 + int (length [Some ''12-34'', Some ''12'', Some ''34''])
   \<and> replaceRegister 0 [Some ''12-34'', Some ''12'', Some ''34''] (''x='' @ backslash # ''$R1;'')
       = ''x=$R1;''
   \<and> replaceRegister 0 [Some ''12-34'', Some ''12'', Some ''34'']
         (''x='' @ backslash # backslash # ''$R1;'')
       = ''x='' @ backslash # backslash # ''34;''
   \<and> replaceRegister 0 [Some ''12-34'', Some ''12'', Some ''34''] ''x=$R1;'' = ''x=34;''"
proof -
  let ?regs = "[Some ''12-34'', Some ''12'', Some ''34'']"
  have pre: "CHR ''$'' \<notin> set ''x=''" "''x='' = [] \<or> last ''x='' \<noteq> backslash"
    by (simp_all add: backslash_def)
  have tok: "''1'' = [CHR ''1''] \<or> ''1'' = [CHR ''1'', CHR ''0'']" "list_all is_digit ''1''"
            "length ''1'' = 1 \<longrightarrow> '';'' = [] \<or> \<not> is_digit (hd '';'')"
    by (simp_all add: is_digit_def)
  have val: "parseInt10 ''1'' = 1"
    by (simp add: parseInt10_def digit_val_def)
  have inrange: "(0::int) < parseInt10 ''1'' + 1" "parseInt10 ''1'' + 1 < 0 + int (length ?regs)"
    by (simp_all add: val)
  have rest: "replaceRegister 0 ?regs '';'' = '';''"
    by (simp add: match_token_def backslash_def)
  note t = replaceRegister_escaping[OF pre tok inrange]
  have one: "replaceRegister 0 ?regs (''x='' @ backslash # ''$R1;'') = ''x=$R1;''"
    using t[of 1] unfolding rest by (simp del: replaceRegister.simps(2))
  have two: "replaceRegister 0 ?regs (''x='' @ backslash # backslash # ''$R1;'')
       = ''x='' @ backslash # backslash # ''34;''"
    using t[of 2] unfolding rest
    by (simp add: val reg_str_def numeral_2_eq_2 del: replaceRegister.simps(2))
  have zero: "replaceRegister 0 ?regs ''x=$R1;'' = ''x=34;''"
    using t[of 0] unfolding rest by (simp add: val reg_str_def del: replaceRegister.simps(2))
  from pre tok(2) inrange one two zero show ?thesis by (simp del: replaceRegister.simps(2))
qed

text \<open>
  C5. A token whose index, the value of the digits plus one, is not in the range from
  \<open>numRegisters\<close> (excluded) to \<open>numRegisters + groupCount\<close> (included), where
  \<open>groupCount\<close> is the length of the match array minus one, is left as it is, by the
  callback and in the replacement of a string in which it stands after text without
  \<^verbatim>\<open>$\<close>; replacing the token once more changes nothing. With two registers
  captured, \<^verbatim>\<open>$R99\<close> stays \<^verbatim>\<open>$R99\<close>.
\<close>

theorem replaceRegister_verbatim:
  assumes pre: "CHR ''$'' \<notin> set pre" "pre = [] \<or> last pre \<noteq> backslash"
      and tok: "ds = [d1] \<or> ds = [d1, d2]" "list_all is_digit ds"
               "length ds = 1 \<longrightarrow> rest = [] \<or> \<not> is_digit (hd rest)"
      and out: "\<not> (numRegs < parseInt10 ds + 1
                  \<and> parseInt10 ds + 1 \<le> numRegs + (int (length registers) - 1))"
  shows "replacement numRegs registers (replicate k backslash) ds = replicate k backslash @ ''$R'' @ ds
       \<and> replaceRegister numRegs registers (pre @ replicate k backslash @ ''$R'' @ ds @ rest)
           = pre @ replicate k backslash @ ''$R'' @ ds @ replaceRegister numRegs registers rest
       \<and> replaceRegister numRegs registers
            (replaceRegister numRegs registers (replicate k backslash @ ''$R'' @ ds))
           = replaceRegister numRegs registers (replicate k backslash @ ''$R'' @ ds)
       \<and> replaceRegister 0 [whole, first, second] ''$R99'' = ''$R99''"
proof -
  have a: "replacement numRegs registers (replicate k backslash) ds = replicate k backslash @ ''$R'' @ ds"
    by (rule replacement_out_of_range[OF out])
  have b: "replaceRegister numRegs registers (pre @ replicate k backslash @ ''$R'' @ ds @ rest)
           = pre @ replicate k backslash @ ''$R'' @ ds @ replaceRegister numRegs registers rest"
    unfolding replaceRegister_plain_prefix[OF pre] replaceRegister_token[OF tok] a by simp
  have tok0: "length ds = 1 \<longrightarrow> ([]::string) = [] \<or> \<not> is_digit (hd [])" by simp
  have c: "replaceRegister numRegs registers (replicate k backslash @ ''$R'' @ ds)
           = replicate k backslash @ ''$R'' @ ds"
    using replaceRegister_token[OF tok(1,2) tok0, of numRegs registers k] a by simp
  have nn: "list_all is_digit ''99''" by (simp add: is_digit_def)
  have "replacement 0 [whole, first, second] [] ''99'' = ''$R99''"
    by (simp add: replacement_def parseInt10_def digit_val_def)
  then have d: "replaceRegister 0 [whole, first, second] ''$R99'' = ''$R99''"
    using replaceRegister_token[of "''99''" "CHR ''9''" "CHR ''9''" "[]" 0 "[whole, first, second]" 0] nn
    by simp
  from a b c d show ?thesis by simp
qed

theorem replaceRegister_verbatim_witness:
  "CHR ''$'' \<notin> set ''x='' \<and> last ''x='' \<noteq> backslash
   \<and> list_all is_digit ''99''
   \<and> \<not> ((0::int) < parseInt10 ''99'' + 1
        \<and> parseInt10 ''99'' + 1 \<le> 0 + (int (length [Some ''12-34'', Some ''12'', Some ''34'']) - 1))
   \<and> replaceRegister 0 [Some ''12-34'', Some ''12'', Some ''34''] (''x='' @ backslash # ''$R99!'')
       = ''x='' @ backslash # ''$R99!''
   \<and> replaceRegister 2 [Some ''12-34'', Some ''12'', Some ''34''] ''$R1'' = ''$R1''"
proof -
  let ?regs = "[Some ''12-34'', Some ''12'', Some ''34'']"
  have pre: "CHR ''$'' \<notin> set ''x=''" "''x='' = [] \<or> last ''x='' \<noteq> backslash"
    by (simp_all add: backslash_def)
  have pre0: "CHR ''$'' \<notin> set []" "([]::string) = [] \<or> last [] \<noteq> backslash"
    by simp_all
  have tok: "''99'' = [CHR ''9''] \<or> ''99'' = [CHR ''9'', CHR ''9'']" "list_all is_digit ''99''"
            "length ''99'' = 1 \<longrightarrow> ''!'' = [] \<or> \<not> is_digit (hd ''!'')"
    by (simp_all add: is_digit_def)
  have val: "parseInt10 ''99'' = 99"
    by (simp add: parseInt10_def digit_val_def)
  have out: "\<not> ((0::int) < parseInt10 ''99'' + 1
        \<and> parseInt10 ''99'' + 1 \<le> 0 + (int (length ?regs) - 1))"
    by (simp add: val)
  have tok1: "''1'' = [CHR ''1''] \<or> ''1'' = [CHR ''1'', CHR ''0'']" "list_all is_digit ''1''"
            "length ''1'' = 1 \<longrightarrow> ([]::string) = [] \<or> \<not> is_digit (hd [])"
    by (simp_all add: is_digit_def)
  have out1: "\<not> ((2::int) < parseInt10 ''1'' + 1
        \<and> parseInt10 ''1'' + 1 \<le> 2 + (int (length ?regs) - 1))"
    by (simp add: parseInt10_def digit_val_def)
  have rest: "replaceRegister 0 ?regs ''!'' = ''!''"
    by (simp add: match_token_def backslash_def)
  have "replaceRegister 0 ?regs (''x='' @ replicate 1 backslash @ ''$R'' @ ''99'' @ ''!'')
          = ''x='' @ replicate 1 backslash @ ''$R'' @ ''99'' @ replaceRegister 0 ?regs ''!''"
    using replaceRegister_verbatim[OF pre tok out, of 1] by blast
  then have a: "replaceRegister 0 ?regs (''x='' @ backslash # ''$R99!'') = ''x='' @ backslash # ''$R99!''"
    unfolding rest by (simp del: replaceRegister.simps(2))
  have "replaceRegister 2 ?regs ([] @ replicate 0 backslash @ ''$R'' @ ''1'' @ [])
          = [] @ replicate 0 backslash @ ''$R'' @ ''1'' @ replaceRegister 2 ?regs []"
    using replaceRegister_verbatim[OF pre0 tok1 out1, of 0] by blast
  then have b: "replaceRegister 2 ?regs ''$R1'' = ''$R1''"
    by (simp del: replaceRegister.simps(2))
  from pre tok(2) out a b show ?thesis by (simp del: replaceRegister.simps(2))
qed

end
